theory Spec2Isabelle
  imports Main
begin

section \<open>Values, errors and dictionaries\<close>

text \<open>
  The library is Python: three modules, \<^verbatim>\<open>opsladder.py\<close> (the metaclass that chains the
  per-class \<^verbatim>\<open>_defaults\<close> dictionaries and \<^verbatim>\<open>options_filter\<close>), \<^verbatim>\<open>assemblable.py\<close> (the
  context manager \<^verbatim>\<open>Assemblable\<close> and its list) and \<^verbatim>\<open>llatex.py\<close> (\<^verbatim>\<open>DocumentPart\<close>,
  \<^verbatim>\<open>NewCommand\<close>, \<^verbatim>\<open>Environment\<close>).

  Python strings are \<^typ>\<open>string\<close>; the backslash cannot be written inside a string literal,
  so it has a name. A dictionary with string keys is a map. Option values are dynamically
  typed in Python; \<open>val\<close> holds the kinds of value the \<^verbatim>\<open>Options\<close> annotations mention.
\<close>

abbreviation BSL :: char where "BSL \<equiv> CHR 0x5C"

text \<open>The payload of a \<^verbatim>\<open>ValueError\<close>: which \<^verbatim>\<open>raise\<close> statement it comes from, with the
  value its message quotes.\<close>

datatype reason =
    EmptyCommandName
  | InvalidCommandName string
  | NargsOutOfRange int
  | EmptyEnvironmentName
  | InvalidEnvironmentName string
  | NotClosed

text \<open>
  \<open>TypeError\<close> also stands for the \<^verbatim>\<open>AttributeError\<close> of a method called on a value of the
  wrong type. \<open>OutsideModel\<close> is no Python exception: it answers a reference to an object
  that was never allocated, and a value outside its annotated type where Python would go on
  with it (rendering a list into an f-string, say) instead of raising.
\<close>

datatype error = ValueError reason | KeyError string | TypeError | OutsideModel

datatype list_class = AssembleList | LatexList

text \<open>A pipeline stage is a callable from a list of strings to a list of strings: the bound
  methods \<^verbatim>\<open>obj.p_join\<close> and \<^verbatim>\<open>obj.p_wrap\<close> of the scope object at an address, or a function
  of the caller's (which may raise).\<close>

datatype stage =
    p_join_of nat
  | p_wrap_of nat
  | Callable "string list \<Rightarrow> error + string list"

datatype val =
    VNone
  | VStr string
  | VInt int
  | VList "string list"
  | VPipeline "stage list"
  | VClass list_class

type_synonym dict = "string \<rightharpoonup> val"

text \<open>Python truthiness, as \<^verbatim>\<open>if ops\<close> and \<^verbatim>\<open>init or []\<close> test it.\<close>

fun truthy :: "val \<Rightarrow> bool" where
  "truthy VNone = False"
| "truthy (VStr s) = (s \<noteq> [])"
| "truthy (VInt n) = (n \<noteq> 0)"
| "truthy (VList xs) = (xs \<noteq> [])"
| "truthy (VPipeline fs) = (fs \<noteq> [])"
| "truthy (VClass c) = True"

text \<open>\<^verbatim>\<open>v is None\<close>.\<close>

fun is_None :: "val \<Rightarrow> bool" where
  "is_None VNone = True"
| "is_None _ = False"

text \<open>Decimal rendering of an integer, what \<^verbatim>\<open>f"{nargs}"\<close> produces.\<close>

definition digit_char :: "nat \<Rightarrow> char" where
  "digit_char d = ''0123456789'' ! d"

fun digits :: "nat \<Rightarrow> string" where
  "digits n = (if n < 10 then [digit_char n] else digits (n div 10) @ [digit_char (n mod 10)])"

declare digits.simps [simp del]

definition str_int :: "int \<Rightarrow> string" where
  "str_int i = (if i < 0 then CHR ''-'' # digits (nat (- i)) else digits (nat i))"

text \<open>What an f-string field \<^verbatim>\<open>{v}\<close> renders. A list or a class would be rendered through
  \<^verbatim>\<open>repr\<close>, which is not modelled.\<close>

fun format_val :: "val \<Rightarrow> error + string" where
  "format_val (VStr s) = Inr s"
| "format_val (VInt n) = Inr (str_int n)"
| "format_val VNone = Inr ''None''"
| "format_val _ = Inl OutsideModel"

text \<open>\<^verbatim>\<open>delimiter.join(data)\<close>.\<close>

fun join :: "string \<Rightarrow> string list \<Rightarrow> string" where
  "join d [] = []"
| "join d [x] = x"
| "join d (x # y # ys) = x @ d @ join d (y # ys)"

section \<open>opsladder.py\<close>

text \<open>
  The classes of the repository, with \<^verbatim>\<open>object\<close> and the marker \<^verbatim>\<open>OptionsLadder.HasOptions\<close>.
  \<open>mro\<close> is Python's method resolution order, most derived class first.
\<close>

datatype cls = Object | HasOptions | Assemblable | DocumentPart | NewCommand | Environment

fun mro :: "cls \<Rightarrow> cls list" where
  "mro Object = [Object]"
| "mro HasOptions = [HasOptions, Object]"
| "mro Assemblable = [Assemblable, HasOptions, Object]"
| "mro DocumentPart = [DocumentPart, Assemblable, HasOptions, Object]"
| "mro NewCommand = [NewCommand, DocumentPart, Assemblable, HasOptions, Object]"
| "mro Environment = [Environment, DocumentPart, Assemblable, HasOptions, Object]"

definition issubclass :: "cls \<Rightarrow> cls \<Rightarrow> bool" where
  "issubclass c b = (b \<in> set (mro c))"

text \<open>The classes whose body assigns \<^verbatim>\<open>_defaults\<close>. Attribute lookup on a class (or on an
  instance of it) finds the dictionary of the first such class in the MRO.\<close>

fun declares_defaults :: "cls \<Rightarrow> bool" where
  "declares_defaults Object = False"
| "declares_defaults HasOptions = False"
| "declares_defaults _ = True"

definition getattr_defaults :: "cls \<Rightarrow> cls option" where
  "getattr_defaults c = find declares_defaults (mro c)"

text \<open>
  A \<^verbatim>\<open>ChainMap\<close> is a list of dictionaries, searched front to back. The class-level
  \<^verbatim>\<open>_defaults\<close> dictionaries are shared objects that the constructors write to, so a layer
  is either a reference to the \<^verbatim>\<open>_defaults\<close> of a class or a dictionary of the chain's own.
  \<^verbatim>\<open>ChainMap(m, d)\<close> with \<open>d\<close> itself a chain searches \<open>m\<close>, then \<open>d\<close>: the nested chain is
  kept flat.
\<close>

datatype layer = Defaults cls | Own dict

text \<open>\<^verbatim>\<open>OptionsLadder.__new__\<close>: the value of the class attribute \<^verbatim>\<open>settings\<close>.\<close>

definition OptionsLadder_new :: "cls \<Rightarrow> layer list" where
  "OptionsLadder_new n_cls =
     foldl (\<lambda>d c. case getattr_defaults c of
                     Some o_cls \<Rightarrow> if issubclass c HasOptions then Defaults o_cls # d else d
                   | None \<Rightarrow> d)
           [Own Map.empty] (rev (mro n_cls))"

text \<open>\<^verbatim>\<open>options_filter(x, s)\<close>; \<open>s\<close> stands for the key set of \<^verbatim>\<open>s.__annotations__\<close>.\<close>

definition options_filter :: "dict \<Rightarrow> string set \<Rightarrow> dict \<times> dict" where
  "options_filter x s =
     ((\<lambda>k. if k \<in> s then x k else None), (\<lambda>k. if k \<notin> s then x k else None))"

text \<open>The annotations of the \<^verbatim>\<open>Options\<close> typed dictionaries; a \<^verbatim>\<open>TypedDict\<close> subclass has its
  bases' annotations too.\<close>

definition Assemblable_Options :: "string set" where
  "Assemblable_Options = {''list_type'', ''pipeline'', ''initial_list''}"

definition DocumentPart_Options :: "string set" where
  "DocumentPart_Options = Assemblable_Options \<union> {''name'', ''prolog'', ''epilog'', ''delimiter''}"

section \<open>The store\<close>

text \<open>
  Lists and scope objects are mutable and shared (a child appends to its parent's list, a
  bound method in a class dictionary reads the settings of the object it is bound to), so
  both live in a store, addressed by position. The \<^verbatim>\<open>_defaults\<close> dictionaries are part of
  the state as well.
\<close>

record list_obj =
  items :: "string list"
  l_class :: list_class
  l_context :: "nat option"

text \<open>The result of a pipeline is the list object it was given (an empty pipeline returns
  its argument) or a list that a stage built.\<close>

datatype res = SameList nat | NewList "string list"

record scope_obj =
  s_class :: cls
  s_settings :: "layer list"
  s_result :: "res option"
  s_parent :: "nat option"
  s_data :: "nat option"

record state =
  class_defaults :: "cls \<Rightarrow> dict"
  list_objs :: "list_obj list"
  scope_objs :: "scope_obj list"

type_synonym 'a outcome = "(error + 'a) \<times> state"

definition scope_at :: "state \<Rightarrow> nat \<Rightarrow> scope_obj option" where
  "scope_at st i = (if i < length (scope_objs st) then Some (scope_objs st ! i) else None)"

definition list_at :: "state \<Rightarrow> nat \<Rightarrow> list_obj option" where
  "list_at st a = (if a < length (list_objs st) then Some (list_objs st ! a) else None)"

definition upd_scope :: "nat \<Rightarrow> (scope_obj \<Rightarrow> scope_obj) \<Rightarrow> state \<Rightarrow> state" where
  "upd_scope i f st = st\<lparr>scope_objs := (scope_objs st)[i := f (scope_objs st ! i)]\<rparr>"

definition upd_defaults :: "cls \<Rightarrow> string \<Rightarrow> val \<Rightarrow> state \<Rightarrow> state" where
  "upd_defaults c k v st = st\<lparr>class_defaults := (class_defaults st)(c := (class_defaults st c)(k \<mapsto> v))\<rparr>"

fun layer_dict :: "(cls \<Rightarrow> dict) \<Rightarrow> layer \<Rightarrow> dict" where
  "layer_dict D (Defaults c) = D c"
| "layer_dict D (Own d) = d"

text \<open>\<^verbatim>\<open>ChainMap.__getitem__\<close>, given the current \<^verbatim>\<open>_defaults\<close> dictionaries: the first layer
  that has the key, else \<^verbatim>\<open>KeyError\<close>.\<close>

fun chain_get :: "(cls \<Rightarrow> dict) \<Rightarrow> layer list \<Rightarrow> string \<Rightarrow> error + val" where
  "chain_get D [] k = Inl (KeyError k)"
| "chain_get D (l # ls) k =
     (case layer_dict D l k of Some v \<Rightarrow> Inr v | None \<Rightarrow> chain_get D ls k)"

text \<open>\<^verbatim>\<open>obj.settings[k]\<close>.\<close>

definition setting :: "state \<Rightarrow> nat \<Rightarrow> string \<Rightarrow> error + val" where
  "setting st i k =
     (case scope_at st i of
        None \<Rightarrow> Inl OutsideModel
      | Some ob \<Rightarrow> chain_get (class_defaults st) (s_settings ob) k)"

section \<open>assemblable.py\<close>

text \<open>\<^verbatim>\<open>AssembleList.__init__(init, context)\<close>: a new list object holding a copy of
  \<^verbatim>\<open>init or []\<close>. A string is iterable (its characters); an integer or a class is not. A
  non-empty list of callables cannot be the contents of a list of strings.\<close>

definition alloc_list :: "list_class \<Rightarrow> string list \<Rightarrow> nat option \<Rightarrow> state \<Rightarrow> nat outcome" where
  "alloc_list c xs ctx st =
     (Inr (length (list_objs st)),
      st\<lparr>list_objs := list_objs st @ [\<lparr>items = xs, l_class = c, l_context = ctx\<rparr>]\<rparr>)"

definition AssembleList_init :: "list_class \<Rightarrow> val \<Rightarrow> nat option \<Rightarrow> state \<Rightarrow> nat outcome" where
  "AssembleList_init c init ctx st =
     (case (if truthy init then init else VList []) of
        VList xs \<Rightarrow> alloc_list c xs ctx st
      | VStr s \<Rightarrow> alloc_list c (map (\<lambda>ch. [ch]) s) ctx st
      | VPipeline fs \<Rightarrow> (Inl OutsideModel, st)
      | _ \<Rightarrow> (Inl TypeError, st))"

text \<open>\<^verbatim>\<open>lst.append(x)\<close> and \<^verbatim>\<open>lst.extend(xs)\<close> on the list object at an address.\<close>

definition list_extend :: "nat \<Rightarrow> string list \<Rightarrow> state \<Rightarrow> unit outcome" where
  "list_extend a xs st =
     (case list_at st a of
        None \<Rightarrow> (Inl OutsideModel, st)
      | Some l \<Rightarrow> (Inr (), st\<lparr>list_objs := (list_objs st)[a := l\<lparr>items := items l @ xs\<rparr>]\<rparr>))"

definition list_append :: "nat \<Rightarrow> string \<Rightarrow> state \<Rightarrow> unit outcome" where
  "list_append a x st = list_extend a [x] st"

text \<open>Allocation of a scope object (\<^verbatim>\<open>object.__new__\<close>): no instance attribute is set yet, so
  \<^verbatim>\<open>self.settings\<close> reads the class attribute that the metaclass computed.\<close>

definition new_object :: "cls \<Rightarrow> state \<Rightarrow> nat \<times> state" where
  "new_object c st =
     (length (scope_objs st),
      st\<lparr>scope_objs := scope_objs st @
            [\<lparr>s_class = c, s_settings = OptionsLadder_new c, s_result = None,
              s_parent = None, s_data = None\<rparr>]\<rparr>)"

text \<open>\<^verbatim>\<open>Assemblable.__init__\<close>. \<^verbatim>\<open>ChainMap({}, self.settings)\<close> puts a fresh dictionary in front
  and \<^verbatim>\<open>update\<close> writes the keyword arguments into it.\<close>

definition Assemblable_init :: "nat \<Rightarrow> nat option \<Rightarrow> dict \<Rightarrow> state \<Rightarrow> unit outcome" where
  "Assemblable_init self parent kwargs st =
     (let st1 = upd_scope self (\<lambda>ob. ob\<lparr>s_settings := Own (Map.empty ++ kwargs) # s_settings ob\<rparr>) st;
          st2 = upd_scope self (\<lambda>ob. ob\<lparr>s_result := None, s_parent := parent\<rparr>) st1
      in case setting st2 self ''list_type'' of
           Inl e \<Rightarrow> (Inl e, st2)
         | Inr lt \<Rightarrow>
             (case setting st2 self ''initial_list'' of
                Inl e \<Rightarrow> (Inl e, st2)
              | Inr il \<Rightarrow>
                  (case lt of
                     VClass c \<Rightarrow>
                       (case AssembleList_init c il (Some self) st2 of
                          (Inl e, st3) \<Rightarrow> (Inl e, st3)
                        | (Inr a, st3) \<Rightarrow> (Inr (), upd_scope self (\<lambda>ob. ob\<lparr>s_data := Some a\<rparr>) st3))
                   | _ \<Rightarrow> (Inl TypeError, st2))))"

text \<open>\<^verbatim>\<open>Assemblable.__enter__\<close>.\<close>

definition Assemblable_enter :: "nat \<Rightarrow> state \<Rightarrow> error + nat" where
  "Assemblable_enter self st =
     (case scope_at st self of
        None \<Rightarrow> Inl OutsideModel
      | Some ob \<Rightarrow> (case s_data ob of None \<Rightarrow> Inl TypeError | Some d \<Rightarrow> Inr d))"

text \<open>The two stages of \<^verbatim>\<open>DocumentPart\<close> (llatex.py), here because a pipeline may hold them.\<close>

definition p_join :: "state \<Rightarrow> nat \<Rightarrow> string list \<Rightarrow> error + string list" where
  "p_join st self data =
     (case setting st self ''delimiter'' of
        Inl e \<Rightarrow> Inl e
      | Inr (VStr d) \<Rightarrow> Inr [join d data]
      | Inr _ \<Rightarrow> Inl TypeError)"

definition p_wrap :: "state \<Rightarrow> nat \<Rightarrow> string list \<Rightarrow> error + string list" where
  "p_wrap st self data =
     (case setting st self ''prolog'' of
        Inl e \<Rightarrow> Inl e
      | Inr p \<Rightarrow>
          (case setting st self ''epilog'' of
             Inl e \<Rightarrow> Inl e
           | Inr q \<Rightarrow>
               (case (p, q) of
                  (VStr ps, VStr qs) \<Rightarrow> Inr [concat ([ps] @ data @ [qs])]
                | _ \<Rightarrow> Inl TypeError)))"

fun call_stage :: "state \<Rightarrow> stage \<Rightarrow> string list \<Rightarrow> error + string list" where
  "call_stage st (p_join_of i) data = p_join st i data"
| "call_stage st (p_wrap_of i) data = p_wrap st i data"
| "call_stage st (Callable f) data = f data"

text \<open>The contents of a pipeline value.\<close>

definition res_items :: "state \<Rightarrow> res \<Rightarrow> error + string list" where
  "res_items st r =
     (case r of
        NewList xs \<Rightarrow> Inr xs
      | SameList a \<Rightarrow> (case list_at st a of None \<Rightarrow> Inl OutsideModel | Some l \<Rightarrow> Inr (items l)))"

text \<open>The loop of \<^verbatim>\<open>run_pipeline\<close>: \<^verbatim>\<open>for func in ...: data = func(data)\<close>.\<close>

fun run_stages :: "state \<Rightarrow> stage list \<Rightarrow> res \<Rightarrow> error + res" where
  "run_stages st [] data = Inr data"
| "run_stages st (func # fs) data =
     (case res_items st data of
        Inl e \<Rightarrow> Inl e
      | Inr xs \<Rightarrow>
          (case call_stage st func xs of
             Inl e \<Rightarrow> Inl e
           | Inr ys \<Rightarrow> run_stages st fs (NewList ys)))"

text \<open>What the loop iterates over: a list of callables; an empty list or empty string gives
  no iteration; a string or a list of strings is iterated, and its first element is not
  callable; anything else is not iterable.\<close>

fun as_pipeline :: "val \<Rightarrow> error + stage list" where
  "as_pipeline (VPipeline fs) = Inr fs"
| "as_pipeline (VList xs) = (if xs = [] then Inr [] else Inl TypeError)"
| "as_pipeline (VStr s) = (if s = [] then Inr [] else Inl TypeError)"
| "as_pipeline _ = Inl TypeError"

definition run_pipeline :: "state \<Rightarrow> nat \<Rightarrow> nat \<Rightarrow> error + res" where
  "run_pipeline st self d =
     (case setting st self ''pipeline'' of
        Inl e \<Rightarrow> Inl e
      | Inr v \<Rightarrow> (case as_pipeline v of Inl e \<Rightarrow> Inl e | Inr fs \<Rightarrow> run_stages st fs (SameList d)))"

text \<open>\<^verbatim>\<open>Assemblable.__exit__\<close>. The exception in flight, if any, is an argument the method
  ignores. It returns \<^verbatim>\<open>None\<close>, which is false: the answer to "suppress the exception?".\<close>

definition Assemblable_exit :: "nat \<Rightarrow> error option \<Rightarrow> state \<Rightarrow> bool outcome" where
  "Assemblable_exit self exc st =
     (case scope_at st self of
        None \<Rightarrow> (Inl OutsideModel, st)
      | Some ob \<Rightarrow>
          (case s_data ob of
             None \<Rightarrow> (Inl TypeError, st)
           | Some d \<Rightarrow>
               (case run_pipeline st self d of
                  Inl e \<Rightarrow> (Inl e, st)
                | Inr r \<Rightarrow>
                    (let st1 = upd_scope self (\<lambda>o'. o'\<lparr>s_result := Some r\<rparr>) st
                     in case s_parent ob of
                          None \<Rightarrow> (Inr False, st1)
                        | Some p \<Rightarrow>
                            (case res_items st1 r of
                               Inl e \<Rightarrow> (Inl e, st1)
                             | Inr xs \<Rightarrow>
                                 (case list_extend p xs st1 of
                                    (Inl e, st2) \<Rightarrow> (Inl e, st2)
                                  | (Inr u, st2) \<Rightarrow> (Inr False, st2)))))))"

text \<open>The property \<^verbatim>\<open>result\<close>.\<close>

definition result :: "state \<Rightarrow> nat \<Rightarrow> error + string list" where
  "result st self =
     (case scope_at st self of
        None \<Rightarrow> Inl OutsideModel
      | Some ob \<Rightarrow>
          (case s_result ob of
             None \<Rightarrow> Inl (ValueError NotClosed)
           | Some r \<Rightarrow> res_items st r))"

text \<open>
  The statement \<^verbatim>\<open>with obj as d: body\<close>. The body is any computation on the state that may
  end in an exception; \<^verbatim>\<open>__exit__\<close> is called with it, and the exception goes on unless
  \<^verbatim>\<open>__exit__\<close> answers true. An exception of \<^verbatim>\<open>__exit__\<close> itself replaces it.
\<close>

definition with_stmt :: "nat \<Rightarrow> (nat \<Rightarrow> state \<Rightarrow> unit outcome) \<Rightarrow> state \<Rightarrow> unit outcome" where
  "with_stmt self body st =
     (case Assemblable_enter self st of
        Inl e \<Rightarrow> (Inl e, st)
      | Inr d \<Rightarrow>
          (case body d st of
             (r, st1) \<Rightarrow>
               (case Assemblable_exit self (case r of Inl e \<Rightarrow> Some e | Inr u \<Rightarrow> None) st1 of
                  (Inl e', st2) \<Rightarrow> (Inl e', st2)
                | (Inr suppress, st2) \<Rightarrow>
                    (case r of
                       Inl e \<Rightarrow> if suppress then (Inr (), st2) else (Inl e, st2)
                     | Inr u \<Rightarrow> (Inr (), st2)))))"

text \<open>Calling the class: allocate, then \<^verbatim>\<open>__init__\<close>.\<close>

definition new_Assemblable :: "nat option \<Rightarrow> dict \<Rightarrow> state \<Rightarrow> nat outcome" where
  "new_Assemblable parent kwargs st =
     (case new_object Assemblable st of
        (self, st0) \<Rightarrow>
          (case Assemblable_init self parent kwargs st0 of
             (Inl e, st1) \<Rightarrow> (Inl e, st1)
           | (Inr u, st1) \<Rightarrow> (Inr self, st1)))"

section \<open>llatex.py\<close>

text \<open>\<^verbatim>\<open>LatexList.desc_item\<close> and \<^verbatim>\<open>LatexList.rule\<close>.\<close>

definition desc_item :: "nat \<Rightarrow> string \<Rightarrow> string \<Rightarrow> state \<Rightarrow> unit outcome" where
  "desc_item a key v st = list_append a (BSL # ''item [{'' @ key @ ''}] '' @ v) st"

definition rule :: "nat \<Rightarrow> string \<Rightarrow> string \<Rightarrow> state \<Rightarrow> unit outcome" where
  "rule a width height st = list_append a (BSL # ''rule{'' @ width @ ''}{'' @ height @ ''}'') st"

text \<open>The class of \<^verbatim>\<open>self\<close> decides which \<^verbatim>\<open>_defaults\<close> dictionary \<^verbatim>\<open>self._defaults\<close> is.\<close>

definition self_defaults :: "state \<Rightarrow> nat \<Rightarrow> error + cls" where
  "self_defaults st self =
     (case scope_at st self of
        None \<Rightarrow> Inl OutsideModel
      | Some ob \<Rightarrow> (case getattr_defaults (s_class ob) of None \<Rightarrow> Inl TypeError | Some c \<Rightarrow> Inr c))"

text \<open>\<^verbatim>\<open>DocumentPart.__init__\<close>. There \<^verbatim>\<open>super().Options\<close> is \<^verbatim>\<open>Assemblable.Options\<close>.\<close>

definition DocumentPart_init :: "nat \<Rightarrow> nat option \<Rightarrow> dict \<Rightarrow> state \<Rightarrow> unit outcome" where
  "DocumentPart_init self parent kwargs st =
     (case self_defaults st self of
        Inl e \<Rightarrow> (Inl e, st)
      | Inr c \<Rightarrow>
          (let st1 = upd_defaults c ''pipeline'' (VPipeline [p_join_of self, p_wrap_of self]) st
           in case options_filter kwargs Assemblable_Options of
                (up, down) \<Rightarrow>
                  (let st2 = upd_scope self (\<lambda>ob. ob\<lparr>s_settings := Own down # s_settings ob\<rparr>) st1
                   in Assemblable_init self parent up st2)))"

definition new_DocumentPart :: "nat option \<Rightarrow> dict \<Rightarrow> state \<Rightarrow> nat outcome" where
  "new_DocumentPart parent kwargs st =
     (case new_object DocumentPart st of
        (self, st0) \<Rightarrow>
          (case DocumentPart_init self parent kwargs st0 of
             (Inl e, st1) \<Rightarrow> (Inl e, st1)
           | (Inr u, st1) \<Rightarrow> (Inr self, st1)))"

text \<open>The regular expressions. Without flags, \<^verbatim>\<open>[a-zA-Z]\<close> and \<^verbatim>\<open>[0-9]\<close> match ASCII only,
  and \<^verbatim>\<open>fullmatch\<close> must consume the whole string.\<close>

definition is_letter :: "char \<Rightarrow> bool" where
  "is_letter c = (let n = (of_char c :: nat) in (97 \<le> n \<and> n \<le> 122) \<or> (65 \<le> n \<and> n \<le> 90))"

definition is_digit :: "char \<Rightarrow> bool" where
  "is_digit c = (let n = (of_char c :: nat) in 48 \<le> n \<and> n \<le> 57)"

fun control_word_re :: "string \<Rightarrow> bool" where
  "control_word_re [] = False"
| "control_word_re (c # cs) =
     (is_letter c \<and> list_all (\<lambda>x. is_letter x \<or> x = CHR ''@'' \<or> x = CHR ''*'' \<or> x = CHR '':'') cs)"

fun environment_name_re :: "string \<Rightarrow> bool" where
  "environment_name_re [] = False"
| "environment_name_re (c # cs) =
     (is_letter c \<and> list_all (\<lambda>x. is_letter x \<or> is_digit x \<or> x = CHR ''@'' \<or> x = CHR ''*'') cs)"

text \<open>\<^verbatim>\<open>validate_latex_control_word\<close> and \<^verbatim>\<open>validate_environment_name\<close>. \<^verbatim>\<open>if not name\<close> tests
  falsiness; \<^verbatim>\<open>re.fullmatch\<close> wants a string.\<close>

definition validate_latex_control_word :: "val \<Rightarrow> error + unit" where
  "validate_latex_control_word name =
     (if \<not> truthy name then Inl (ValueError EmptyCommandName)
      else case name of
             VStr s \<Rightarrow> if \<not> control_word_re s then Inl (ValueError (InvalidCommandName s)) else Inr ()
           | _ \<Rightarrow> Inl TypeError)"

definition validate_environment_name :: "val \<Rightarrow> error + unit" where
  "validate_environment_name name =
     (if \<not> truthy name then Inl (ValueError EmptyEnvironmentName)
      else case name of
             VStr s \<Rightarrow> if \<not> environment_name_re s then Inl (ValueError (InvalidEnvironmentName s)) else Inr ()
           | _ \<Rightarrow> Inl TypeError)"

text \<open>An f-string segment \<^verbatim>\<open>f"<l>{v}<r>"\<close> that is there only under a condition.\<close>

definition segment :: "bool \<Rightarrow> string \<Rightarrow> val \<Rightarrow> string \<Rightarrow> error + string" where
  "segment present l v r =
     (if present then (case format_val v of Inl e \<Rightarrow> Inl e | Inr s \<Rightarrow> Inr (l @ s @ r)) else Inr [])"

text \<open>
  \<^verbatim>\<open>NewCommand.validate_and_update(self, *, name, nargs, default, **_)\<close>, called with the
  dictionary \<^verbatim>\<open>self._defaults | kwargs\<close>: a keyword-only parameter that is missing is a
  \<^verbatim>\<open>TypeError\<close>; comparing a non-integer \<^verbatim>\<open>nargs\<close> with 0 is one too. The right-hand side of
  the assignment is evaluated before \<^verbatim>\<open>self._defaults\<close>.
\<close>

definition NewCommand_validate_and_update :: "nat \<Rightarrow> dict \<Rightarrow> state \<Rightarrow> unit outcome" where
  "NewCommand_validate_and_update self kw st =
     (case (kw ''name'', kw ''nargs'', kw ''default'') of
        (Some name, Some nargs, Some dflt) \<Rightarrow>
          (case validate_latex_control_word name of
             Inl e \<Rightarrow> (Inl e, st)
           | Inr u \<Rightarrow>
               (case nargs of
                  VInt n \<Rightarrow>
                    if n < 0 \<or> n > 9 then (Inl (ValueError (NargsOutOfRange n)), st)
                    else
                      (case (format_val name, segment (n > 0) ''['' nargs '']'',
                             segment (\<not> is_None dflt) ''['' dflt '']'') of
                         (Inr nm, Inr a, Inr b) \<Rightarrow>
                           (case self_defaults st self of
                              Inl e \<Rightarrow> (Inl e, st)
                            | Inr c \<Rightarrow>
                                (Inr (),
                                 upd_defaults c ''prolog''
                                   (VStr (BSL # ''newcommand{'' @ [BSL] @ nm @ ''}'' @ a @ b @ ''{%\<newline>'')) st))
                       | _ \<Rightarrow> (Inl OutsideModel, st))
                | _ \<Rightarrow> (Inl TypeError, st)))
      | _ \<Rightarrow> (Inl TypeError, st))"

text \<open>\<^verbatim>\<open>NewCommand.__init__\<close>. There \<^verbatim>\<open>super().Options\<close> is \<^verbatim>\<open>DocumentPart.Options\<close>.\<close>

definition NewCommand_init :: "nat \<Rightarrow> nat option \<Rightarrow> string \<Rightarrow> dict \<Rightarrow> state \<Rightarrow> unit outcome" where
  "NewCommand_init self parent cmd_name kwargs0 st =
     (let kwargs = kwargs0(''name'' \<mapsto> VStr cmd_name)
      in case self_defaults st self of
           Inl e \<Rightarrow> (Inl e, st)
         | Inr c \<Rightarrow>
             (case NewCommand_validate_and_update self (class_defaults st c ++ kwargs) st of
                (Inl e, st1) \<Rightarrow> (Inl e, st1)
              | (Inr u, st1) \<Rightarrow>
                  (case options_filter kwargs DocumentPart_Options of
                     (up, down) \<Rightarrow>
                       (let st2 = upd_scope self (\<lambda>ob. ob\<lparr>s_settings := Own down # s_settings ob\<rparr>) st1
                        in DocumentPart_init self parent up st2))))"

definition new_NewCommand :: "nat option \<Rightarrow> string \<Rightarrow> dict \<Rightarrow> state \<Rightarrow> nat outcome" where
  "new_NewCommand parent cmd_name kwargs st =
     (case new_object NewCommand st of
        (self, st0) \<Rightarrow>
          (case NewCommand_init self parent cmd_name kwargs st0 of
             (Inl e, st1) \<Rightarrow> (Inl e, st1)
           | (Inr u, st1) \<Rightarrow> (Inr self, st1)))"

text \<open>\<^verbatim>\<open>Environment.validate_and_update(self, *, name, args, ops, **_)\<close>.\<close>

definition Environment_validate_and_update :: "nat \<Rightarrow> dict \<Rightarrow> state \<Rightarrow> unit outcome" where
  "Environment_validate_and_update self kw st =
     (case (kw ''name'', kw ''args'', kw ''ops'') of
        (Some name, Some args, Some ops) \<Rightarrow>
          (case validate_environment_name name of
             Inl e \<Rightarrow> (Inl e, st)
           | Inr u \<Rightarrow>
               (case (format_val name, segment (truthy ops) ''['' ops '']'',
                      segment (truthy args) ''{'' args ''}'') of
                  (Inr nm, Inr a, Inr b) \<Rightarrow>
                    (case self_defaults st self of
                       Inl e \<Rightarrow> (Inl e, st)
                     | Inr c \<Rightarrow>
                         (Inr (),
                          upd_defaults c ''epilog'' (VStr (''\<newline>'' @ BSL # ''end{'' @ nm @ ''}%''))
                            (upd_defaults c ''prolog''
                               (VStr (BSL # ''begin{'' @ nm @ ''}'' @ a @ b @ ''%\<newline>'')) st)))
                | _ \<Rightarrow> (Inl OutsideModel, st)))
      | _ \<Rightarrow> (Inl TypeError, st))"

text \<open>\<^verbatim>\<open>Environment.__init__\<close>.\<close>

definition Environment_init :: "nat \<Rightarrow> nat option \<Rightarrow> string \<Rightarrow> dict \<Rightarrow> state \<Rightarrow> unit outcome" where
  "Environment_init self parent env_name kwargs0 st =
     (let kwargs = kwargs0(''name'' \<mapsto> VStr env_name)
      in case self_defaults st self of
           Inl e \<Rightarrow> (Inl e, st)
         | Inr c \<Rightarrow>
             (case Environment_validate_and_update self (class_defaults st c ++ kwargs) st of
                (Inl e, st1) \<Rightarrow> (Inl e, st1)
              | (Inr u, st1) \<Rightarrow>
                  (case options_filter kwargs DocumentPart_Options of
                     (up, down) \<Rightarrow>
                       (let st2 = upd_scope self (\<lambda>ob. ob\<lparr>s_settings := Own down # s_settings ob\<rparr>) st1
                        in DocumentPart_init self parent up st2))))"

definition new_Environment :: "nat option \<Rightarrow> string \<Rightarrow> dict \<Rightarrow> state \<Rightarrow> nat outcome" where
  "new_Environment parent env_name kwargs st =
     (case new_object Environment st of
        (self, st0) \<Rightarrow>
          (case Environment_init self parent env_name kwargs st0 of
             (Inl e, st1) \<Rightarrow> (Inl e, st1)
           | (Inr u, st1) \<Rightarrow> (Inr self, st1)))"

section \<open>The state after import\<close>

text \<open>The \<^verbatim>\<open>_defaults\<close> dictionaries as the class bodies write them; no object exists yet.\<close>

definition Assemblable_defaults :: dict where
  "Assemblable_defaults =
     [''list_type'' \<mapsto> VClass AssembleList, ''initial_list'' \<mapsto> VList [], ''pipeline'' \<mapsto> VPipeline []]"

definition DocumentPart_defaults :: dict where
  "DocumentPart_defaults =
     [''list_type'' \<mapsto> VClass LatexList, ''name'' \<mapsto> VNone, ''prolog'' \<mapsto> VStr [],
      ''epilog'' \<mapsto> VStr [], ''delimiter'' \<mapsto> VStr ''\<newline>'']"

definition NewCommand_defaults :: dict where
  "NewCommand_defaults =
     [''nargs'' \<mapsto> VInt 0, ''default'' \<mapsto> VNone, ''epilog'' \<mapsto> VStr ''\<newline>}%'',
      ''delimiter'' \<mapsto> VStr ''\<newline>'']"

definition Environment_defaults :: dict where
  "Environment_defaults = [''args'' \<mapsto> VNone, ''ops'' \<mapsto> VNone, ''delimiter'' \<mapsto> VStr ''\<newline>'']"

fun declared_defaults :: "cls \<Rightarrow> dict" where
  "declared_defaults Assemblable = Assemblable_defaults"
| "declared_defaults DocumentPart = DocumentPart_defaults"
| "declared_defaults NewCommand = NewCommand_defaults"
| "declared_defaults Environment = Environment_defaults"
| "declared_defaults _ = Map.empty"

definition module_state :: state where
  "module_state = \<lparr>class_defaults = declared_defaults, list_objs = [], scope_objs = []\<rparr>"

section \<open>Using the library\<close>

text \<open>The four constructors under one name, and the operations a caller has: building
  scopes and lists, appending, leaving a scope.\<close>

datatype ctor = MkAssemblable | MkDocumentPart | MkNewCommand string | MkEnvironment string

fun construct :: "ctor \<Rightarrow> nat option \<Rightarrow> dict \<Rightarrow> state \<Rightarrow> nat outcome" where
  "construct MkAssemblable parent kwargs st = new_Assemblable parent kwargs st"
| "construct MkDocumentPart parent kwargs st = new_DocumentPart parent kwargs st"
| "construct (MkNewCommand cmd_name) parent kwargs st = new_NewCommand parent cmd_name kwargs st"
| "construct (MkEnvironment env_name) parent kwargs st = new_Environment parent env_name kwargs st"

fun ctor_class :: "ctor \<Rightarrow> cls" where
  "ctor_class MkAssemblable = Assemblable"
| "ctor_class MkDocumentPart = DocumentPart"
| "ctor_class (MkNewCommand n) = NewCommand"
| "ctor_class (MkEnvironment n) = Environment"

text \<open>The options an instance is given: the keyword arguments, and the positional name
  that \<^verbatim>\<open>NewCommand\<close> and \<^verbatim>\<open>Environment\<close> store under \<^verbatim>\<open>name\<close>.\<close>

fun supplied :: "ctor \<Rightarrow> dict \<Rightarrow> dict" where
  "supplied (MkNewCommand n) kwargs = kwargs(''name'' \<mapsto> VStr n)"
| "supplied (MkEnvironment n) kwargs = kwargs(''name'' \<mapsto> VStr n)"
| "supplied _ kwargs = kwargs"

datatype op =
    Construct ctor "nat option" dict
  | MakeList list_class "string list"
  | Append nat string
  | Extend nat "string list"
  | DescItem nat string string
  | Rule nat string string
  | Exit nat "error option"

text \<open>One operation; an exception it raises is caught by the caller, the state is what the
  operation left.\<close>

fun step :: "op \<Rightarrow> state \<Rightarrow> state" where
  "step (Construct c parent kwargs) st = snd (construct c parent kwargs st)"
| "step (MakeList c xs) st = snd (alloc_list c xs None st)"
| "step (Append a x) st = snd (list_append a x st)"
| "step (Extend a xs) st = snd (list_extend a xs st)"
| "step (DescItem a k v) st = snd (desc_item a k v st)"
| "step (Rule a w h) st = snd (rule a w h st)"
| "step (Exit i exc) st = snd (Assemblable_exit i exc st)"

fun run :: "op list \<Rightarrow> state \<Rightarrow> state" where
  "run [] st = st"
| "run (x # xs) st = run xs (step x st)"

text \<open>Appending items one after the other.\<close>

fun append_all :: "nat \<Rightarrow> string list \<Rightarrow> state \<Rightarrow> state" where
  "append_all a [] st = st"
| "append_all a (x # xs) st = append_all a xs (snd (list_append a x st))"

text \<open>
  The end-to-end scenario:
  \<^verbatim>\<open>
  document = Environment(None, 'document')
  with document as doc:
      greet = NewCommand(doc, 'greet', nargs=1)
      with greet as cmd:
          cmd.append('\\textbf{Hello, #1!}')
      doc.append('\\greet{World}')
  document.result
  \<close>
\<close>

definition scenario :: "state \<Rightarrow> error + string list" where
  "scenario st0 =
     (case new_Environment None ''document'' Map.empty st0 of
        (Inl e, st1) \<Rightarrow> Inl e
      | (Inr document, st1) \<Rightarrow>
          (case with_stmt document
                  (\<lambda>doc st. case new_NewCommand (Some doc) ''greet'' [''nargs'' \<mapsto> VInt 1] st of
                               (Inl e, st2) \<Rightarrow> (Inl e, st2)
                             | (Inr greet, st2) \<Rightarrow>
                                 (case with_stmt greet
                                         (\<lambda>cmd. list_append cmd (BSL # ''textbf{Hello, #1!}'')) st2 of
                                    (Inl e, st3) \<Rightarrow> (Inl e, st3)
                                  | (Inr u, st3) \<Rightarrow> list_append doc (BSL # ''greet{World}'') st3))
                  st1 of
             (Inl e, st4) \<Rightarrow> Inl e
           | (Inr u, st4) \<Rightarrow> result st4 document))"

text \<open>
  Two environments, one inside the other:
  \<^verbatim>\<open>
  document = Environment(None, 'document')
  with document as doc:
      itemize = Environment(doc, 'itemize')
      with itemize as it:
          it.append('\\item one')
  \<close>
  observed through the document's result at the end and the prefix the document reads
  before the inner environment is built and after it is left.
\<close>

definition nested :: "state \<Rightarrow> (error + string list) \<times> (error + val) \<times> (error + val)" where
  "nested st0 =
     (case new_Environment None ''document'' Map.empty st0 of
        (Inl e, st1) \<Rightarrow> (Inl e, Inl e, Inl e)
      | (Inr document, st1) \<Rightarrow>
          (case with_stmt document
                  (\<lambda>doc st. case new_Environment (Some doc) ''itemize'' Map.empty st of
                               (Inl e, st2) \<Rightarrow> (Inl e, st2)
                             | (Inr itemize, st2) \<Rightarrow>
                                 with_stmt itemize (\<lambda>it. list_append it (BSL # ''item one'')) st2)
                  st1 of
             (r, st4) \<Rightarrow>
               (result st4 document, setting st1 document ''prolog'', setting st4 document ''prolog'')))"

text \<open>
  A small state to try things in, reached from the state after import by
  \<^verbatim>\<open>p = AssembleList(['p']); part = DocumentPart(p)\<close>: the list is at address 0, the scope
  at address 0, its own list at address 1.
\<close>

definition one_part :: state where
  "one_part =
     snd (construct MkDocumentPart (Some 0) Map.empty (step (MakeList AssembleList [''p'']) module_state))"

text \<open>The same with a plain scope, \<^verbatim>\<open>p = AssembleList(['p']); scope = Assemblable(p)\<close>.\<close>

definition plain_scope :: state where
  "plain_scope =
     snd (construct MkAssemblable (Some 0) Map.empty (step (MakeList AssembleList [''p'']) module_state))"

section \<open>Conditions on states and arguments\<close>

text \<open>
  The constructors write three keys into \<^verbatim>\<open>_defaults\<close> dictionaries: \<^verbatim>\<open>pipeline\<close>,
  \<^verbatim>\<open>prolog\<close> and \<^verbatim>\<open>epilog\<close>, and never into the dictionary of \<^verbatim>\<open>Assemblable\<close>. A state is
  intact when every other entry is as the class bodies declare it.
\<close>

definition intact :: "state \<Rightarrow> bool" where
  "intact st \<longleftrightarrow>
     class_defaults st Assemblable = Assemblable_defaults \<and>
     (\<forall>c k. k \<noteq> ''pipeline'' \<and> k \<noteq> ''prolog'' \<and> k \<noteq> ''epilog'' \<longrightarrow>
        class_defaults st c k = declared_defaults c k)"

text \<open>Keyword arguments that respect the annotations of the \<^verbatim>\<open>Options\<close> dictionaries.\<close>

fun is_str :: "val \<Rightarrow> bool" where
  "is_str (VStr s) = True"
| "is_str _ = False"

fun is_int :: "val \<Rightarrow> bool" where
  "is_int (VInt n) = True"
| "is_int _ = False"

fun is_list :: "val \<Rightarrow> bool" where
  "is_list (VList xs) = True"
| "is_list _ = False"

fun is_callables :: "val \<Rightarrow> bool" where
  "is_callables (VPipeline fs) = True"
| "is_callables _ = False"

fun is_class :: "val \<Rightarrow> bool" where
  "is_class (VClass c) = True"
| "is_class _ = False"

definition annotated :: "string \<Rightarrow> val \<Rightarrow> bool" where
  "annotated k v =
     (if k = ''list_type'' then is_class v
      else if k = ''pipeline'' then is_callables v
      else if k = ''initial_list'' then is_list v
      else if k = ''prolog'' \<or> k = ''epilog'' \<or> k = ''delimiter'' then is_str v
      else if k = ''nargs'' then is_int v
      else if k = ''name'' \<or> k = ''default'' \<or> k = ''args'' \<or> k = ''ops'' then is_str v \<or> is_None v
      else True)"

definition conforms :: "dict \<Rightarrow> bool" where
  "conforms kwargs \<longleftrightarrow> (\<forall>k v. kwargs k = Some v \<longrightarrow> annotated k v)"

text \<open>
  The grammars of the specification, over explicit alphabets: a command name is a letter
  followed by letters, \<^verbatim>\<open>@\<close>, \<^verbatim>\<open>*\<close> or \<^verbatim>\<open>:\<close>; an environment name is a letter followed by
  letters, digits, \<^verbatim>\<open>@\<close> or \<^verbatim>\<open>*\<close>. The empty string is in neither.
\<close>

definition letters :: "char set" where
  "letters = set (''abcdefghijklmnopqrstuvwxyz'' @ ''ABCDEFGHIJKLMNOPQRSTUVWXYZ'')"

definition digit_chars :: "char set" where
  "digit_chars = set ''0123456789''"

definition command_name :: "string \<Rightarrow> bool" where
  "command_name s \<longleftrightarrow>
     (case s of
        [] \<Rightarrow> False
      | c # cs \<Rightarrow> c \<in> letters \<and> set cs \<subseteq> letters \<union> {CHR ''@'', CHR ''*'', CHR '':''})"

definition environment_name :: "string \<Rightarrow> bool" where
  "environment_name s \<longleftrightarrow>
     (case s of
        [] \<Rightarrow> False
      | c # cs \<Rightarrow> c \<in> letters \<and> set cs \<subseteq> letters \<union> digit_chars \<union> {CHR ''@'', CHR ''*''})"

text \<open>A value of type \<^verbatim>\<open>str | None\<close>.\<close>

fun opt_str :: "string option \<Rightarrow> val" where
  "opt_str None = VNone"
| "opt_str (Some s) = VStr s"

text \<open>
  The prefixes as the specification describes them: for a command the name, the argument
  count in brackets when it is positive, the default in brackets when there is one; for an
  environment the name, the options in brackets and the arguments in braces when they are
  non-empty strings.
\<close>

definition command_prefix :: "string \<Rightarrow> int \<Rightarrow> string option \<Rightarrow> string" where
  "command_prefix name nargs dflt =
     BSL # ''newcommand{'' @ BSL # name @ ''}'' @
     (if 0 < nargs then ''['' @ str_int nargs @ '']'' else []) @
     (case dflt of None \<Rightarrow> [] | Some s \<Rightarrow> ''['' @ s @ '']'') @ ''{%\<newline>''"

definition environment_prefix :: "string \<Rightarrow> string option \<Rightarrow> string option \<Rightarrow> string" where
  "environment_prefix name ops args =
     BSL # ''begin{'' @ name @ ''}'' @
     (case ops of Some (c # cs) \<Rightarrow> ''['' @ c # cs @ '']'' | _ \<Rightarrow> []) @
     (case args of Some (c # cs) \<Rightarrow> ''{'' @ c # cs @ ''}'' | _ \<Rightarrow> []) @ ''%\<newline>''"

text \<open>
  The specification's reading of a lookup: the classes of the ancestry that take part (a
  subclass of the marker with a \<^verbatim>\<open>_defaults\<close>), most derived first, and the value of the
  first of them whose defaults have the key.
\<close>

definition participating :: "cls \<Rightarrow> cls list" where
  "participating c = filter (\<lambda>a. issubclass a HasOptions \<and> declares_defaults a) (mro c)"

fun most_derived_value :: "(cls \<Rightarrow> dict) \<Rightarrow> cls list \<Rightarrow> string \<Rightarrow> val option" where
  "most_derived_value D [] k = None"
| "most_derived_value D (c # cs) k =
     (case D c k of Some v \<Rightarrow> Some v | None \<Rightarrow> most_derived_value D cs k)"

section \<open>Evaluating the model\<close>

lemmas model_defs =
  module_state_def new_Environment_def new_NewCommand_def new_DocumentPart_def
  new_Assemblable_def new_object_def Environment_init_def NewCommand_init_def
  DocumentPart_init_def Assemblable_init_def self_defaults_def scope_at_def list_at_def
  OptionsLadder_new_def getattr_defaults_def issubclass_def
  Environment_validate_and_update_def NewCommand_validate_and_update_def
  validate_environment_name_def validate_latex_control_word_def is_letter_def is_digit_def
  segment_def upd_defaults_def upd_scope_def options_filter_def DocumentPart_Options_def
  Assemblable_Options_def setting_def Assemblable_defaults_def DocumentPart_defaults_def
  NewCommand_defaults_def Environment_defaults_def AssembleList_init_def alloc_list_def
  with_stmt_def Assemblable_enter_def Assemblable_exit_def list_append_def list_extend_def
  run_pipeline_def res_items_def p_join_def p_wrap_def result_def str_int_def digits.simps
  digit_char_def Let_def

section \<open>The effect of the constructors\<close>

text \<open>Updates of the store and what they leave alone.\<close>

lemma scope_at_upd_scope [simp]:
  "scope_at (upd_scope i f st) j = (if j = i then map_option f (scope_at st j) else scope_at st j)"
  by (auto simp: scope_at_def upd_scope_def)

lemma class_defaults_upd_scope [simp]: "class_defaults (upd_scope i f st) = class_defaults st"
  by (simp add: upd_scope_def)

lemma list_objs_upd_scope [simp]: "list_objs (upd_scope i f st) = list_objs st"
  by (simp add: upd_scope_def)

lemma scope_objs_upd_scope [simp]:
  "scope_objs (upd_scope i f st) = (scope_objs st)[i := f (scope_objs st ! i)]"
  by (simp add: upd_scope_def)

lemma list_at_upd_scope [simp]: "list_at (upd_scope i f st) = list_at st"
  by (rule ext) (simp add: list_at_def)

lemma list_objs_upd_defaults [simp]: "list_objs (upd_defaults c k v st) = list_objs st"
  and scope_objs_upd_defaults [simp]: "scope_objs (upd_defaults c k v st) = scope_objs st"
  and class_defaults_upd_defaults [simp]:
    "class_defaults (upd_defaults c k v st) = (class_defaults st)(c := (class_defaults st c)(k \<mapsto> v))"
  by (simp_all add: upd_defaults_def)

lemma scope_at_upd_defaults [simp]: "scope_at (upd_defaults c k v st) = scope_at st"
  by (rule ext) (simp add: scope_at_def)

lemma OptionsLadder_new_simps [simp]:
  "OptionsLadder_new Assemblable = [Defaults Assemblable, Own Map.empty]"
  "OptionsLadder_new DocumentPart = [Defaults DocumentPart, Defaults Assemblable, Own Map.empty]"
  "OptionsLadder_new NewCommand = [Defaults NewCommand, Defaults DocumentPart, Defaults Assemblable, Own Map.empty]"
  "OptionsLadder_new Environment = [Defaults Environment, Defaults DocumentPart, Defaults Assemblable, Own Map.empty]"
  by (simp_all add: OptionsLadder_new_def getattr_defaults_def issubclass_def)

lemma getattr_defaults_simps [simp]:
  "getattr_defaults Assemblable = Some Assemblable"
  "getattr_defaults DocumentPart = Some DocumentPart"
  "getattr_defaults NewCommand = Some NewCommand"
  "getattr_defaults Environment = Some Environment"
  by (simp_all add: getattr_defaults_def)

text \<open>What a successful \<^verbatim>\<open>__init__\<close> has done to the state.\<close>

lemma Assemblable_init_defaults:
  "Assemblable_init self parent kw st = (r, st') \<Longrightarrow> class_defaults st' = class_defaults st"
  by (auto simp: Assemblable_init_def Let_def AssembleList_init_def alloc_list_def
      split: sum.splits val.splits if_splits prod.splits)

lemma Assemblable_init_Inr:
  assumes "Assemblable_init self parent kw st = (Inr u, st')" and "self < length (scope_objs st)"
  shows "\<exists>c xs. st' = st\<lparr>list_objs := list_objs st @ [\<lparr>items = xs, l_class = c, l_context = Some self\<rparr>],
                        scope_objs := (scope_objs st)[self := (scope_objs st ! self)
                           \<lparr>s_settings := Own kw # s_settings (scope_objs st ! self),
                            s_result := None, s_parent := parent, s_data := Some (length (list_objs st))\<rparr>]\<rparr>"
  using assms
  by (auto simp: Assemblable_init_def Let_def AssembleList_init_def alloc_list_def upd_scope_def
      split: sum.splits val.splits if_splits prod.splits)

lemma self_defaults_upd_scope_settings [simp]:
  "self_defaults (upd_scope i (\<lambda>ob. ob\<lparr>s_settings := g ob\<rparr>) st) j = self_defaults st j"
  by (cases "scope_at st j") (auto simp: self_defaults_def)

lemma self_defaults_upd_defaults [simp]:
  "self_defaults (upd_defaults c k v st) j = self_defaults st j"
  by (simp add: self_defaults_def)

lemma DocumentPart_init_Inr:
  assumes "DocumentPart_init self parent kw st = (Inr u, st')" and "self < length (scope_objs st)"
  shows "\<exists>dc lc xs. getattr_defaults (s_class (scope_objs st ! self)) = Some dc \<and>
          st' = st\<lparr>class_defaults := (class_defaults st)
                       (dc := (class_defaults st dc)(''pipeline'' \<mapsto> VPipeline [p_join_of self, p_wrap_of self])),
                   list_objs := list_objs st @ [\<lparr>items = xs, l_class = lc, l_context = Some self\<rparr>],
                   scope_objs := (scope_objs st)[self := (scope_objs st ! self)
                      \<lparr>s_settings := Own (fst (options_filter kw Assemblable_Options)) #
                                      Own (snd (options_filter kw Assemblable_Options)) #
                                      s_settings (scope_objs st ! self),
                       s_result := None, s_parent := parent, s_data := Some (length (list_objs st))\<rparr>]\<rparr>"
proof -
  from assms obtain dc where dc: "self_defaults st self = Inr dc"
    by (auto simp: DocumentPart_init_def split: sum.splits)
  with assms(2) have g: "getattr_defaults (s_class (scope_objs st ! self)) = Some dc"
    by (auto simp: self_defaults_def scope_at_def split: option.splits)
  let ?st2 = "upd_scope self (\<lambda>ob. ob\<lparr>s_settings := Own (snd (options_filter kw Assemblable_Options)) # s_settings ob\<rparr>)
                (upd_defaults dc ''pipeline'' (VPipeline [p_join_of self, p_wrap_of self]) st)"
  from assms(1) dc have "Assemblable_init self parent (fst (options_filter kw Assemblable_Options)) ?st2 = (Inr u, st')"
    by (simp add: DocumentPart_init_def Let_def split: prod.splits)
  from Assemblable_init_Inr[OF this] assms(2) obtain c xs where
    "st' = ?st2\<lparr>list_objs := list_objs ?st2 @ [\<lparr>items = xs, l_class = c, l_context = Some self\<rparr>],
                        scope_objs := (scope_objs ?st2)[self := (scope_objs ?st2 ! self)
                           \<lparr>s_settings := Own (fst (options_filter kw Assemblable_Options)) # s_settings (scope_objs ?st2 ! self),
                            s_result := None, s_parent := parent, s_data := Some (length (list_objs ?st2))\<rparr>]\<rparr>"
    by auto
  with g assms(2) show ?thesis
    by (auto simp: upd_scope_def upd_defaults_def)
qed

lemma validate_latex_control_word_VStr:
  "validate_latex_control_word (VStr s) =
     (if s = [] then Inl (ValueError EmptyCommandName)
      else if control_word_re s then Inr () else Inl (ValueError (InvalidCommandName s)))"
  by (simp add: validate_latex_control_word_def)

lemma validate_environment_name_VStr:
  "validate_environment_name (VStr s) =
     (if s = [] then Inl (ValueError EmptyEnvironmentName)
      else if environment_name_re s then Inr () else Inl (ValueError (InvalidEnvironmentName s)))"
  by (simp add: validate_environment_name_def)

lemma control_word_re_Nil [simp]: "\<not> control_word_re []"
  by simp

lemma environment_name_re_Nil [simp]: "\<not> environment_name_re []"
  by simp

text \<open>The prolog text of a command, as the f-string builds it.\<close>

lemma NewCommand_validate_and_update_Inr:
  assumes "NewCommand_validate_and_update self kw st = (Inr u, st')"
  shows "\<exists>nm n d a b dc. kw ''name'' = Some nm \<and> validate_latex_control_word nm = Inr () \<and>
           kw ''nargs'' = Some (VInt n) \<and> 0 \<le> n \<and> n \<le> 9 \<and> kw ''default'' = Some d \<and>
           segment (n > 0) ''['' (VInt n) '']'' = Inr a \<and> segment (\<not> is_None d) ''['' d '']'' = Inr b \<and>
           self_defaults st self = Inr dc \<and>
           (\<exists>s. format_val nm = Inr s \<and>
           st' = upd_defaults dc ''prolog'' (VStr (BSL # ''newcommand{'' @ [BSL] @ s @ ''}'' @ a @ b @ ''{%\<newline>'')) st)"
  using assms
  by (auto simp: NewCommand_validate_and_update_def split: option.splits sum.splits val.splits if_splits)

lemma Environment_validate_and_update_Inr:
  assumes "Environment_validate_and_update self kw st = (Inr u, st')"
  shows "\<exists>nm ar op a b dc. kw ''name'' = Some nm \<and> validate_environment_name nm = Inr () \<and>
           kw ''args'' = Some ar \<and> kw ''ops'' = Some op \<and>
           segment (truthy op) ''['' op '']'' = Inr a \<and> segment (truthy ar) ''{'' ar ''}'' = Inr b \<and>
           self_defaults st self = Inr dc \<and>
           (\<exists>s. format_val nm = Inr s \<and>
           st' = upd_defaults dc ''epilog'' (VStr (''\<newline>'' @ BSL # ''end{'' @ s @ ''}%''))
                  (upd_defaults dc ''prolog'' (VStr (BSL # ''begin{'' @ s @ ''}'' @ a @ b @ ''%\<newline>'')) st))"
  using assms
  by (auto simp: Environment_validate_and_update_def split: option.splits sum.splits val.splits if_splits)

lemma NewCommand_init_Inr:
  assumes "NewCommand_init self parent name kw0 st = (Inr u, st')"
    and "self < length (scope_objs st)" and "s_class (scope_objs st ! self) = NewCommand"
  shows "\<exists>n d a b lc xs.
          (class_defaults st NewCommand ++ kw0(''name'' \<mapsto> VStr name)) ''nargs'' = Some (VInt n) \<and>
          0 \<le> n \<and> n \<le> 9 \<and> control_word_re name \<and>
          (class_defaults st NewCommand ++ kw0(''name'' \<mapsto> VStr name)) ''default'' = Some d \<and>
          segment (n > 0) ''['' (VInt n) '']'' = Inr a \<and> segment (\<not> is_None d) ''['' d '']'' = Inr b \<and>
          class_defaults st' = (class_defaults st)
             (NewCommand := (class_defaults st NewCommand)
                (''prolog'' \<mapsto> VStr (BSL # ''newcommand{'' @ [BSL] @ name @ ''}'' @ a @ b @ ''{%\<newline>''),
                 ''pipeline'' \<mapsto> VPipeline [p_join_of self, p_wrap_of self])) \<and>
          list_objs st' = list_objs st @ [\<lparr>items = xs, l_class = lc, l_context = Some self\<rparr>] \<and>
          scope_objs st' = (scope_objs st)[self := (scope_objs st ! self)
             \<lparr>s_settings :=
                Own (fst (options_filter (fst (options_filter (kw0(''name'' \<mapsto> VStr name)) DocumentPart_Options)) Assemblable_Options)) #
                Own (snd (options_filter (fst (options_filter (kw0(''name'' \<mapsto> VStr name)) DocumentPart_Options)) Assemblable_Options)) #
                Own (snd (options_filter (kw0(''name'' \<mapsto> VStr name)) DocumentPart_Options)) #
                s_settings (scope_objs st ! self),
              s_result := None, s_parent := parent, s_data := Some (length (list_objs st))\<rparr>]"
proof -
  let ?kw = "kw0(''name'' \<mapsto> VStr name)"
  have sd: "self_defaults st self = Inr NewCommand"
    using assms(2,3) by (simp add: self_defaults_def scope_at_def)
  from assms(1) sd obtain st1 where
    v: "NewCommand_validate_and_update self (class_defaults st NewCommand ++ ?kw) st = (Inr (), st1)"
    and d: "DocumentPart_init self parent (fst (options_filter ?kw DocumentPart_Options))
              (upd_scope self (\<lambda>ob. ob\<lparr>s_settings := Own (snd (options_filter ?kw DocumentPart_Options)) # s_settings ob\<rparr>) st1)
            = (Inr u, st')"
    by (auto simp: NewCommand_init_def Let_def split: sum.splits prod.splits)
  from NewCommand_validate_and_update_Inr[OF v] sd obtain n d' a b where
    f: "(class_defaults st NewCommand ++ ?kw) ''nargs'' = Some (VInt n)" "0 \<le> n" "n \<le> 9"
       "(class_defaults st NewCommand ++ ?kw) ''default'' = Some d'"
       "segment (n > 0) ''['' (VInt n) '']'' = Inr a" "segment (\<not> is_None d') ''['' d' '']'' = Inr b"
       "validate_latex_control_word (VStr name) = Inr ()"
       "st1 = upd_defaults NewCommand ''prolog'' (VStr (BSL # ''newcommand{'' @ [BSL] @ name @ ''}'' @ a @ b @ ''{%\<newline>'')) st"
    by (auto simp: map_add_def)
  have cw: "control_word_re name"
    using f(7) by (auto simp: validate_latex_control_word_VStr split: if_splits)
  from DocumentPart_init_Inr[OF d] assms(2,3) f(8) obtain lc xs where
    "st' = (upd_scope self (\<lambda>ob. ob\<lparr>s_settings := Own (snd (options_filter ?kw DocumentPart_Options)) # s_settings ob\<rparr>) st1)
       \<lparr>class_defaults := (class_defaults st1)
                       (NewCommand := (class_defaults st1 NewCommand)(''pipeline'' \<mapsto> VPipeline [p_join_of self, p_wrap_of self])),
                   list_objs := list_objs st1 @ [\<lparr>items = xs, l_class = lc, l_context = Some self\<rparr>],
                   scope_objs := (scope_objs st)[self := (scope_objs st ! self)
                      \<lparr>s_settings := Own (fst (options_filter (fst (options_filter ?kw DocumentPart_Options)) Assemblable_Options)) #
                                      Own (snd (options_filter (fst (options_filter ?kw DocumentPart_Options)) Assemblable_Options)) #
                                      Own (snd (options_filter ?kw DocumentPart_Options)) #
                                      s_settings (scope_objs st ! self),
                       s_result := None, s_parent := parent, s_data := Some (length (list_objs st))\<rparr>]\<rparr>"
    by (auto simp: upd_scope_def)
  with f cw show ?thesis
    by (intro exI[of _ n] exI[of _ d'] exI[of _ a] exI[of _ b] exI[of _ lc] exI[of _ xs]) (simp add: upd_scope_def)
qed

lemma Environment_init_Inr:
  assumes "Environment_init self parent name kw0 st = (Inr u, st')"
    and "self < length (scope_objs st)" and "s_class (scope_objs st ! self) = Environment"
  shows "\<exists>ar op a b lc xs.
          (class_defaults st Environment ++ kw0(''name'' \<mapsto> VStr name)) ''args'' = Some ar \<and>
          (class_defaults st Environment ++ kw0(''name'' \<mapsto> VStr name)) ''ops'' = Some op \<and>
          environment_name_re name \<and>
          segment (truthy op) ''['' op '']'' = Inr a \<and> segment (truthy ar) ''{'' ar ''}'' = Inr b \<and>
          class_defaults st' = (class_defaults st)
             (Environment := (class_defaults st Environment)
                (''prolog'' \<mapsto> VStr (BSL # ''begin{'' @ name @ ''}'' @ a @ b @ ''%\<newline>''),
                 ''epilog'' \<mapsto> VStr (''\<newline>'' @ BSL # ''end{'' @ name @ ''}%''),
                 ''pipeline'' \<mapsto> VPipeline [p_join_of self, p_wrap_of self])) \<and>
          list_objs st' = list_objs st @ [\<lparr>items = xs, l_class = lc, l_context = Some self\<rparr>] \<and>
          scope_objs st' = (scope_objs st)[self := (scope_objs st ! self)
             \<lparr>s_settings :=
                Own (fst (options_filter (fst (options_filter (kw0(''name'' \<mapsto> VStr name)) DocumentPart_Options)) Assemblable_Options)) #
                Own (snd (options_filter (fst (options_filter (kw0(''name'' \<mapsto> VStr name)) DocumentPart_Options)) Assemblable_Options)) #
                Own (snd (options_filter (kw0(''name'' \<mapsto> VStr name)) DocumentPart_Options)) #
                s_settings (scope_objs st ! self),
              s_result := None, s_parent := parent, s_data := Some (length (list_objs st))\<rparr>]"
proof -
  let ?kw = "kw0(''name'' \<mapsto> VStr name)"
  have sd: "self_defaults st self = Inr Environment"
    using assms(2,3) by (simp add: self_defaults_def scope_at_def)
  from assms(1) sd obtain st1 where
    v: "Environment_validate_and_update self (class_defaults st Environment ++ ?kw) st = (Inr (), st1)"
    and d: "DocumentPart_init self parent (fst (options_filter ?kw DocumentPart_Options))
              (upd_scope self (\<lambda>ob. ob\<lparr>s_settings := Own (snd (options_filter ?kw DocumentPart_Options)) # s_settings ob\<rparr>) st1)
            = (Inr u, st')"
    by (auto simp: Environment_init_def Let_def split: sum.splits prod.splits)
  from Environment_validate_and_update_Inr[OF v] sd obtain ar op a b where
    f: "(class_defaults st Environment ++ ?kw) ''args'' = Some ar"
       "(class_defaults st Environment ++ ?kw) ''ops'' = Some op"
       "segment (truthy op) ''['' op '']'' = Inr a" "segment (truthy ar) ''{'' ar ''}'' = Inr b"
       "validate_environment_name (VStr name) = Inr ()"
       "st1 = upd_defaults Environment ''epilog'' (VStr (''\<newline>'' @ BSL # ''end{'' @ name @ ''}%''))
                (upd_defaults Environment ''prolog'' (VStr (BSL # ''begin{'' @ name @ ''}'' @ a @ b @ ''%\<newline>'')) st)"
    by (auto simp: map_add_def)
  have cw: "environment_name_re name"
    using f(5) by (auto simp: validate_environment_name_VStr split: if_splits)
  from DocumentPart_init_Inr[OF d] assms(2,3) f(6) obtain lc xs where
    "st' = (upd_scope self (\<lambda>ob. ob\<lparr>s_settings := Own (snd (options_filter ?kw DocumentPart_Options)) # s_settings ob\<rparr>) st1)
       \<lparr>class_defaults := (class_defaults st1)
                       (Environment := (class_defaults st1 Environment)(''pipeline'' \<mapsto> VPipeline [p_join_of self, p_wrap_of self])),
                   list_objs := list_objs st1 @ [\<lparr>items = xs, l_class = lc, l_context = Some self\<rparr>],
                   scope_objs := (scope_objs st)[self := (scope_objs st ! self)
                      \<lparr>s_settings := Own (fst (options_filter (fst (options_filter ?kw DocumentPart_Options)) Assemblable_Options)) #
                                      Own (snd (options_filter (fst (options_filter ?kw DocumentPart_Options)) Assemblable_Options)) #
                                      Own (snd (options_filter ?kw DocumentPart_Options)) #
                                      s_settings (scope_objs st ! self),
                       s_result := None, s_parent := parent, s_data := Some (length (list_objs st))\<rparr>]\<rparr>"
    by (auto simp: upd_scope_def)
  with f cw show ?thesis
    by (intro exI[of _ ar] exI[of _ op] exI[of _ a] exI[of _ b] exI[of _ lc] exI[of _ xs]) (simp add: upd_scope_def)
qed

lemma chain_get_filtered:
  "chain_get D (Own (fst (options_filter a S)) # Own (snd (options_filter a S)) # ls) k =
   chain_get D (Own a # ls) k"
  by (simp add: options_filter_def split: option.splits)

lemma chain_get_supplied:
  "chain_get D (Own a # ls) k = (case a k of Some v \<Rightarrow> Inr v | None \<Rightarrow> chain_get D ls k)"
  by simp

lemma chain_get_ladder:
  "c \<in> {Assemblable, DocumentPart, NewCommand, Environment} \<Longrightarrow>
   chain_get D (OptionsLadder_new c) k =
     (case most_derived_value D (participating c) k of Some v \<Rightarrow> Inr v | None \<Rightarrow> Inl (KeyError k))"
  by (auto simp: participating_def issubclass_def split: option.splits)

text \<open>What a successful constructor leaves.\<close>

lemma construct_Inr:
  assumes "construct k parent kw st = (Inr i, st')"
  shows "i = length (scope_objs st) \<and>
         (\<exists>ob l. scope_objs st' = scope_objs st @ [ob] \<and> list_objs st' = list_objs st @ [l] \<and>
            l_context l = Some i \<and> s_class ob = ctor_class k \<and> s_result ob = None \<and>
            s_parent ob = parent \<and> s_data ob = Some (length (list_objs st)) \<and>
            (\<forall>D key. chain_get D (s_settings ob) key =
               (case supplied k kw key of Some v \<Rightarrow> Inr v
                | None \<Rightarrow> chain_get D (OptionsLadder_new (ctor_class k)) key)))"
proof (cases k)
  case MkAssemblable
  with assms obtain u where
    "Assemblable_init (length (scope_objs st)) parent kw (snd (new_object Assemblable st)) = (Inr u, st')"
    and i: "i = length (scope_objs st)"
    by (auto simp: new_Assemblable_def new_object_def split: sum.splits prod.splits)
  from Assemblable_init_Inr[OF this(1)] i MkAssemblable show ?thesis
    by (auto simp: new_object_def split: option.splits)
next
  case MkDocumentPart
  with assms obtain u where
    "DocumentPart_init (length (scope_objs st)) parent kw (snd (new_object DocumentPart st)) = (Inr u, st')"
    and i: "i = length (scope_objs st)"
    by (auto simp: new_DocumentPart_def new_object_def split: sum.splits prod.splits)
  from DocumentPart_init_Inr[OF this(1)] i MkDocumentPart show ?thesis
    by (auto simp: new_object_def options_filter_def split: option.splits)
next
  case (MkNewCommand name)
  with assms obtain u where
    "NewCommand_init (length (scope_objs st)) parent name kw (snd (new_object NewCommand st)) = (Inr u, st')"
    and i: "i = length (scope_objs st)"
    by (auto simp: new_NewCommand_def new_object_def split: sum.splits prod.splits)
  from NewCommand_init_Inr[OF this(1)] i MkNewCommand show ?thesis
    by (auto simp: new_object_def options_filter_def split: option.splits)
next
  case (MkEnvironment name)
  with assms obtain u where
    "Environment_init (length (scope_objs st)) parent name kw (snd (new_object Environment st)) = (Inr u, st')"
    and i: "i = length (scope_objs st)"
    by (auto simp: new_Environment_def new_object_def split: sum.splits prod.splits)
  from Environment_init_Inr[OF this(1)] i MkEnvironment show ?thesis
    by (auto simp: new_object_def options_filter_def split: option.splits)
qed

section \<open>Key partitioning\<close>

text \<open>
  C8. \<^verbatim>\<open>options_filter\<close> splits any keyword dictionary, for any schema, into two
  dictionaries whose key sets are disjoint and together are the key set of the original;
  each of the two agrees with the original on its keys (so the two merged give the original
  back): no key is duplicated, dropped or given another value.
\<close>

theorem options_filter_partition:
  "dom (fst (options_filter x s)) \<inter> dom (snd (options_filter x s)) = {} \<and>
   dom (fst (options_filter x s)) \<union> dom (snd (options_filter x s)) = dom x \<and>
   fst (options_filter x s) ++ snd (options_filter x s) = x \<and>
   fst (options_filter x s) \<subseteq>\<^sub>m x \<and> snd (options_filter x s) \<subseteq>\<^sub>m x"
  by (auto simp: options_filter_def dom_def map_add_def map_le_def split: if_splits option.splits)

section \<open>Layered lookup\<close>

lemma chain_get_Inl:
  "chain_get D ls k = Inl e \<Longrightarrow> e = KeyError k \<and> (\<forall>l \<in> set ls. layer_dict D l k = None)"
  by (induction ls) (auto split: option.splits)

lemma chain_get_defined:
  "l \<in> set ls \<Longrightarrow> layer_dict D l k = Some v \<Longrightarrow> chain_get D ls k \<noteq> Inl e"
  using chain_get_Inl by fastforce

lemma Assemblable_init_no_KeyError:
  assumes "self < length (scope_objs st)"
    and "Defaults Assemblable \<in> set (s_settings (scope_objs st ! self))"
    and "class_defaults st Assemblable = Assemblable_defaults"
  shows "fst (Assemblable_init self parent kw st) \<noteq> Inl (KeyError k)"
proof -
  let ?ls = "Own (Map.empty ++ kw) # s_settings (scope_objs st ! self)"
  have a: "chain_get (class_defaults st) ?ls ''list_type'' \<noteq> Inl e" for e
    by (rule chain_get_defined[where l = "Defaults Assemblable"])
       (use assms in \<open>auto simp: Assemblable_defaults_def\<close>)
  have b: "chain_get (class_defaults st) ?ls ''initial_list'' \<noteq> Inl e" for e
    by (rule chain_get_defined[where l = "Defaults Assemblable"])
       (use assms in \<open>auto simp: Assemblable_defaults_def\<close>)
  show ?thesis
    using a b assms(1)
    by (auto simp: Assemblable_init_def Let_def setting_def scope_at_def AssembleList_init_def alloc_list_def
        split: sum.splits val.splits prod.splits if_splits)
qed

lemma DocumentPart_init_no_KeyError:
  assumes "self < length (scope_objs st)"
    and "Defaults Assemblable \<in> set (s_settings (scope_objs st ! self))"
    and "class_defaults st Assemblable = Assemblable_defaults"
    and "getattr_defaults (s_class (scope_objs st ! self)) \<noteq> Some Assemblable"
  shows "fst (DocumentPart_init self parent kw st) \<noteq> Inl (KeyError k)"
proof (cases "self_defaults st self")
  case (Inl e)
  then show ?thesis
    by (auto simp: DocumentPart_init_def self_defaults_def split: option.splits)
next
  case (Inr dc)
  with assms have ne: "dc \<noteq> Assemblable"
    by (auto simp: self_defaults_def scope_at_def split: option.splits)
  let ?st2 = "upd_scope self (\<lambda>ob. ob\<lparr>s_settings := Own (snd (options_filter kw Assemblable_Options)) # s_settings ob\<rparr>)
                (upd_defaults dc ''pipeline'' (VPipeline [p_join_of self, p_wrap_of self]) st)"
  have "fst (Assemblable_init self parent (fst (options_filter kw Assemblable_Options)) ?st2) \<noteq> Inl (KeyError k)"
    by (rule Assemblable_init_no_KeyError) (use assms ne in auto)
  with Inr show ?thesis
    by (simp add: DocumentPart_init_def Let_def case_prod_unfold)
qed

lemma self_defaults_no_KeyError [simp]: "self_defaults st self \<noteq> Inl (KeyError k)"
  by (auto simp: self_defaults_def split: option.splits)

lemma validate_steps_defaults:
  "NewCommand_validate_and_update self m st = (r, st1) \<Longrightarrow>
     fst (NewCommand_validate_and_update self m st) \<noteq> Inl (KeyError k) \<and>
     scope_objs st1 = scope_objs st \<and> list_objs st1 = list_objs st \<and>
     (\<forall>c. c \<noteq> NewCommand \<longrightarrow> self_defaults st self = Inr NewCommand \<longrightarrow> class_defaults st1 c = class_defaults st c)"
  "Environment_validate_and_update self m st = (r', st2) \<Longrightarrow>
     fst (Environment_validate_and_update self m st) \<noteq> Inl (KeyError k) \<and>
     scope_objs st2 = scope_objs st \<and> list_objs st2 = list_objs st \<and>
     (\<forall>c. c \<noteq> Environment \<longrightarrow> self_defaults st self = Inr Environment \<longrightarrow> class_defaults st2 c = class_defaults st c)"
  by (auto simp: NewCommand_validate_and_update_def Environment_validate_and_update_def
        validate_latex_control_word_def validate_environment_name_def
      split: option.splits sum.splits val.splits if_splits)

lemma NewCommand_init_no_KeyError:
  assumes "self < length (scope_objs st)"
    and "s_settings (scope_objs st ! self) = OptionsLadder_new NewCommand"
    and "class_defaults st Assemblable = Assemblable_defaults"
    and "s_class (scope_objs st ! self) = NewCommand"
  shows "fst (NewCommand_init self parent name kw0 st) \<noteq> Inl (KeyError k)"
proof -
  let ?kw = "kw0(''name'' \<mapsto> VStr name)"
  have sd: "self_defaults st self = Inr NewCommand"
    using assms by (simp add: self_defaults_def scope_at_def)
  obtain r st1 where v: "NewCommand_validate_and_update self (class_defaults st NewCommand ++ ?kw) st = (r, st1)"
    by (cases "NewCommand_validate_and_update self (class_defaults st NewCommand ++ ?kw) st")
  note f = validate_steps_defaults(1)[OF v, of k]
  show ?thesis
  proof (cases r)
    case (Inl e)
    with v f sd show ?thesis by (auto simp: NewCommand_init_def Let_def)
  next
    case (Inr u)
    let ?st2 = "upd_scope self (\<lambda>ob. ob\<lparr>s_settings := Own (snd (options_filter ?kw DocumentPart_Options)) # s_settings ob\<rparr>) st1"
    have "fst (DocumentPart_init self parent (fst (options_filter ?kw DocumentPart_Options)) ?st2) \<noteq> Inl (KeyError k)"
      by (rule DocumentPart_init_no_KeyError) (use assms f sd in auto)
    with v Inr sd show ?thesis
      by (simp add: NewCommand_init_def Let_def case_prod_unfold)
  qed
qed

lemma Environment_init_no_KeyError:
  assumes "self < length (scope_objs st)"
    and "s_settings (scope_objs st ! self) = OptionsLadder_new Environment"
    and "class_defaults st Assemblable = Assemblable_defaults"
    and "s_class (scope_objs st ! self) = Environment"
  shows "fst (Environment_init self parent name kw0 st) \<noteq> Inl (KeyError k)"
proof -
  let ?kw = "kw0(''name'' \<mapsto> VStr name)"
  have sd: "self_defaults st self = Inr Environment"
    using assms by (simp add: self_defaults_def scope_at_def)
  obtain r st1 where v: "Environment_validate_and_update self (class_defaults st Environment ++ ?kw) st = (r, st1)"
    by (cases "Environment_validate_and_update self (class_defaults st Environment ++ ?kw) st")
  note f = validate_steps_defaults(2)[OF v, of k]
  show ?thesis
  proof (cases r)
    case (Inl e)
    with v f sd show ?thesis by (auto simp: Environment_init_def Let_def)
  next
    case (Inr u)
    let ?st2 = "upd_scope self (\<lambda>ob. ob\<lparr>s_settings := Own (snd (options_filter ?kw DocumentPart_Options)) # s_settings ob\<rparr>) st1"
    have "fst (DocumentPart_init self parent (fst (options_filter ?kw DocumentPart_Options)) ?st2) \<noteq> Inl (KeyError k)"
      by (rule DocumentPart_init_no_KeyError) (use assms f sd in auto)
    with v Inr sd show ?thesis
      by (simp add: Environment_init_def Let_def case_prod_unfold)
  qed
qed

lemma construct_no_KeyError:
  assumes "class_defaults st Assemblable = Assemblable_defaults"
  shows "fst (construct c parent kw st) \<noteq> Inl (KeyError k)"
proof (cases c)
  case MkAssemblable
  have "fst (Assemblable_init (length (scope_objs st)) parent kw (snd (new_object Assemblable st))) \<noteq> Inl (KeyError k)"
    by (rule Assemblable_init_no_KeyError) (use assms in \<open>auto simp: new_object_def\<close>)
  with MkAssemblable show ?thesis
    by (auto simp: new_Assemblable_def new_object_def split: prod.splits sum.splits)
next
  case MkDocumentPart
  have "fst (DocumentPart_init (length (scope_objs st)) parent kw (snd (new_object DocumentPart st))) \<noteq> Inl (KeyError k)"
    by (rule DocumentPart_init_no_KeyError) (use assms in \<open>auto simp: new_object_def\<close>)
  with MkDocumentPart show ?thesis
    by (auto simp: new_DocumentPart_def new_object_def split: prod.splits sum.splits)
next
  case (MkNewCommand n)
  have "fst (NewCommand_init (length (scope_objs st)) parent n kw (snd (new_object NewCommand st))) \<noteq> Inl (KeyError k)"
    by (rule NewCommand_init_no_KeyError) (use assms in \<open>auto simp: new_object_def\<close>)
  with MkNewCommand show ?thesis
    by (auto simp: new_NewCommand_def new_object_def split: prod.splits sum.splits)
next
  case (MkEnvironment n)
  have "fst (Environment_init (length (scope_objs st)) parent n kw (snd (new_object Environment st))) \<noteq> Inl (KeyError k)"
    by (rule Environment_init_no_KeyError) (use assms in \<open>auto simp: new_object_def\<close>)
  with MkEnvironment show ?thesis
    by (auto simp: new_Environment_def new_object_def split: prod.splits sum.splits)
qed

lemma ctor_class_ladder: "ctor_class k \<in> {Assemblable, DocumentPart, NewCommand, Environment}"
  by (cases k) auto

text \<open>
  C9. For an instance that any of the four constructors has built, reading a key of its
  settings gives the value the instance was given for it (a keyword argument, or the
  positional name), otherwise the value in the \<^verbatim>\<open>_defaults\<close> of the most derived class of
  its ancestry that takes part and has the key, otherwise \<^verbatim>\<open>KeyError\<close>, raised by the read.
  Construction itself never raises \<^verbatim>\<open>KeyError\<close> in an intact state: the two keys it reads
  are declared by \<^verbatim>\<open>Assemblable\<close>.
\<close>

theorem layered_lookup:
  "(construct k parent kw st = (Inr i, st') \<longrightarrow>
      setting st' i key =
        (case supplied k kw key of
           Some v \<Rightarrow> Inr v
         | None \<Rightarrow>
             (case most_derived_value (class_defaults st') (participating (ctor_class k)) key of
                Some v \<Rightarrow> Inr v
              | None \<Rightarrow> Inl (KeyError key)))) \<and>
   (intact st \<longrightarrow> fst (construct k parent kw st) \<noteq> Inl (KeyError key))"
proof (intro conjI impI)
  assume c: "construct k parent kw st = (Inr i, st')"
  from construct_Inr[OF c] obtain ob where
    ob: "i = length (scope_objs st)" "scope_objs st' = scope_objs st @ [ob]"
      "\<And>D key. chain_get D (s_settings ob) key =
               (case supplied k kw key of Some v \<Rightarrow> Inr v
                | None \<Rightarrow> chain_get D (OptionsLadder_new (ctor_class k)) key)"
    by blast
  have "setting st' i key = chain_get (class_defaults st') (s_settings ob) key"
    using ob(1,2) by (simp add: setting_def scope_at_def)
  then show "setting st' i key =
        (case supplied k kw key of
           Some v \<Rightarrow> Inr v
         | None \<Rightarrow>
             (case most_derived_value (class_defaults st') (participating (ctor_class k)) key of
                Some v \<Rightarrow> Inr v
              | None \<Rightarrow> Inl (KeyError key)))"
    by (simp add: ob(3) chain_get_ladder[OF ctor_class_ladder] split: option.splits)
next
  assume "intact st"
  then show "fst (construct k parent kw st) \<noteq> Inl (KeyError key)"
    by (intro construct_no_KeyError) (simp add: intact_def)
qed

theorem layered_lookup_witness:
  "fst (construct (MkNewCommand ''greet'') None [''nargs'' \<mapsto> VInt 1] module_state) = Inr 0 \<and>
   setting (snd (construct (MkNewCommand ''greet'') None [''nargs'' \<mapsto> VInt 1] module_state)) 0 ''nargs''
     = Inr (VInt 1) \<and>
   intact module_state \<and>
   fst (construct (MkNewCommand ''greet'') None [''nargs'' \<mapsto> VInt 1] module_state) \<noteq> Inl (KeyError ''nargs'')"
proof -
  let ?c = "construct (MkNewCommand ''greet'') None [''nargs'' \<mapsto> VInt 1] module_state"
  have e: "fst ?c = Inr 0"
    by (simp add: model_defs)
  then have c: "?c = (Inr 0, snd ?c)"
    by (simp add: prod_eq_iff)
  have i: "intact module_state"
    by (simp add: intact_def module_state_def)
  from layered_lookup[of "MkNewCommand ''greet''" None "[''nargs'' \<mapsto> VInt 1]" module_state 0 "snd ?c" "''nargs''"] c i e
  show ?thesis by simp
qed

section \<open>When construction succeeds\<close>

text \<open>The regular expressions accept the grammars of the specification.\<close>

lemma is_letter_iff:
  "is_letter c \<longleftrightarrow> c \<in> set (''abcdefghijklmnopqrstuvwxyz'' @ ''ABCDEFGHIJKLMNOPQRSTUVWXYZ'')"
proof
  assume "c \<in> set (''abcdefghijklmnopqrstuvwxyz'' @ ''ABCDEFGHIJKLMNOPQRSTUVWXYZ'')"
  then show "is_letter c"
    by (auto simp: is_letter_def)
next
  assume a: "is_letter c"
  let ?n = "of_char c :: nat"
  from a have b: "(97 \<le> ?n \<and> ?n \<le> 122) \<or> (65 \<le> ?n \<and> ?n \<le> 90)"
    by (simp add: is_letter_def Let_def)
  have "?n \<in> of_char ` set (''abcdefghijklmnopqrstuvwxyz'' @ ''ABCDEFGHIJKLMNOPQRSTUVWXYZ'')"
    using b by simp arith
  then show "c \<in> set (''abcdefghijklmnopqrstuvwxyz'' @ ''ABCDEFGHIJKLMNOPQRSTUVWXYZ'')"
    by (simp only: inj_image_mem_iff[OF inj_of_char])
qed

lemma is_digit_iff: "is_digit c \<longleftrightarrow> c \<in> set ''0123456789''"
proof
  assume "c \<in> set ''0123456789''"
  then show "is_digit c" by (auto simp: is_digit_def)
next
  assume a: "is_digit c"
  let ?n = "of_char c :: nat"
  from a have b: "48 \<le> ?n \<and> ?n \<le> 57"
    by (simp add: is_digit_def Let_def)
  have "?n \<in> of_char ` set ''0123456789''"
    using b by simp arith
  then show "c \<in> set ''0123456789''" by (simp only: inj_image_mem_iff[OF inj_of_char])
qed

lemma is_letter_letters: "is_letter c \<longleftrightarrow> c \<in> letters"
  unfolding letters_def by (rule is_letter_iff)

lemma is_digit_digit_chars: "is_digit c \<longleftrightarrow> c \<in> digit_chars"
  unfolding digit_chars_def by (rule is_digit_iff)

lemma control_word_re_iff: "control_word_re s \<longleftrightarrow> command_name s"
  by (cases s) (auto simp: command_name_def is_letter_letters list_all_iff)

lemma environment_name_re_iff: "environment_name_re s \<longleftrightarrow> environment_name s"
  by (cases s) (auto simp: environment_name_def is_letter_letters is_digit_digit_chars list_all_iff)

text \<open>In an intact state, with arguments of the annotated types, the constructors go through.\<close>

lemma intact_upd_scope [simp]: "intact (upd_scope i f st) = intact st"
  by (simp add: intact_def)

lemma intact_upd_defaults:
  "intact st \<Longrightarrow> c \<noteq> Assemblable \<Longrightarrow> k = ''pipeline'' \<or> k = ''prolog'' \<or> k = ''epilog'' \<Longrightarrow>
   intact (upd_defaults c k v st)"
  by (auto simp: intact_def)

lemma conforms_name: "conforms kw \<Longrightarrow> conforms (kw(''name'' \<mapsto> VStr n))"
  by (auto simp: conforms_def annotated_def)

lemma conforms_filter:
  "conforms kw \<Longrightarrow> conforms (fst (options_filter kw S)) \<and> conforms (snd (options_filter kw S))"
  by (auto simp: conforms_def options_filter_def split: if_splits)

lemma ladder_list_type:
  assumes "intact st" "conforms kw" "cl \<in> {Assemblable, DocumentPart, NewCommand, Environment}"
  shows "\<exists>c. chain_get (class_defaults st) (Own kw # OptionsLadder_new cl) ''list_type'' = Inr (VClass c)"
proof (cases "kw ''list_type''")
  case None
  have "class_defaults st c ''list_type'' = declared_defaults c ''list_type''" for c
    using assms(1) by (simp add: intact_def)
  with None assms(3) show ?thesis
    by (auto simp: Assemblable_defaults_def DocumentPart_defaults_def NewCommand_defaults_def
        Environment_defaults_def)
next
  case (Some v)
  with assms(2) have "is_class v" by (auto simp: conforms_def annotated_def)
  with Some show ?thesis by (cases v) auto
qed

lemma ladder_initial_list:
  assumes "intact st" "conforms kw" "cl \<in> {Assemblable, DocumentPart, NewCommand, Environment}"
  shows "\<exists>xs. chain_get (class_defaults st) (Own kw # OptionsLadder_new cl) ''initial_list'' = Inr (VList xs)"
proof (cases "kw ''initial_list''")
  case None
  have "class_defaults st c ''initial_list'' = declared_defaults c ''initial_list''" for c
    using assms(1) by (simp add: intact_def)
  with None assms(3) show ?thesis
    by (auto simp: Assemblable_defaults_def DocumentPart_defaults_def NewCommand_defaults_def
        Environment_defaults_def)
next
  case (Some v)
  with assms(2) have "is_list v" by (auto simp: conforms_def annotated_def)
  with Some show ?thesis by (cases v) auto
qed

lemma Assemblable_init_succeeds:
  assumes "self < length (scope_objs st)"
    and "chain_get (class_defaults st) (Own kw # s_settings (scope_objs st ! self)) ''list_type'' = Inr (VClass c)"
    and "chain_get (class_defaults st) (Own kw # s_settings (scope_objs st ! self)) ''initial_list'' = Inr (VList xs)"
  shows "\<exists>st'. Assemblable_init self parent kw st = (Inr (), st')"
  using assms
  by (auto simp: Assemblable_init_def Let_def setting_def scope_at_def AssembleList_init_def alloc_list_def
      split: option.splits)

lemma DocumentPart_init_succeeds:
  assumes "self < length (scope_objs st)" "intact st" "conforms kw"
    and "s_settings (scope_objs st ! self) = ups @ OptionsLadder_new cl"
    and "\<And>D k. chain_get D (Own kw # ups @ OptionsLadder_new cl) k = chain_get D (Own kw' # OptionsLadder_new cl) k"
    and "conforms kw'"
    and "s_class (scope_objs st ! self) = cl" "cl \<in> {DocumentPart, NewCommand, Environment}"
  shows "\<exists>st'. DocumentPart_init self parent kw st = (Inr (), st')"
proof -
  have sd: "self_defaults st self = Inr cl"
    using assms(1,7,8) by (auto simp: self_defaults_def scope_at_def)
  let ?st1 = "upd_defaults cl ''pipeline'' (VPipeline [p_join_of self, p_wrap_of self]) st"
  let ?up = "fst (options_filter kw Assemblable_Options)"
  let ?down = "snd (options_filter kw Assemblable_Options)"
  let ?st2 = "upd_scope self (\<lambda>ob. ob\<lparr>s_settings := Own ?down # s_settings ob\<rparr>) ?st1"
  have i: "intact ?st2"
    using assms(2,8) by (auto intro!: intact_upd_defaults)
  have ch: "chain_get D (Own ?up # s_settings (scope_objs ?st2 ! self)) k = chain_get D (Own kw' # OptionsLadder_new cl) k" for D k
    using assms(1,4) assms(5)[of D k] by (simp add: chain_get_filtered del: chain_get.simps)
  from ladder_list_type[OF i assms(6), of cl] assms(8)
  obtain c where c: "chain_get (class_defaults ?st2) (Own kw' # OptionsLadder_new cl) ''list_type'' = Inr (VClass c)"
    by auto
  from ladder_initial_list[OF i assms(6), of cl] assms(8)
  obtain xs where xs: "chain_get (class_defaults ?st2) (Own kw' # OptionsLadder_new cl) ''initial_list'' = Inr (VList xs)"
    by auto
  have "\<exists>st'. Assemblable_init self parent ?up ?st2 = (Inr (), st')"
    by (rule Assemblable_init_succeeds[where c = c and xs = xs])
       (use assms(1) c xs in \<open>simp_all only: ch\<close>, simp)
  with sd show ?thesis
    by (simp add: DocumentPart_init_def Let_def case_prod_unfold)
qed


lemma segment_simps:
  "segment True l (VStr s) r = Inr (l @ s @ r)"
  "segment True l (VInt n) r = Inr (l @ str_int n @ r)"
  "segment False l v r = Inr []"
  by (simp_all add: segment_def)

lemma NewCommand_validate_ok:
  assumes "m ''name'' = Some (VStr name)" "control_word_re name"
    and "m ''nargs'' = Some (VInt n)" "0 \<le> n" "n \<le> 9"
    and "m ''default'' = Some (opt_str dflt)" "self_defaults st self = Inr dc"
  shows "NewCommand_validate_and_update self m st =
           (Inr (), upd_defaults dc ''prolog'' (VStr (command_prefix name n dflt)) st)"
proof -
  have nm: "name \<noteq> []" using assms(2) by auto
  show ?thesis
    using assms nm
    by (cases dflt)
       (auto simp: NewCommand_validate_and_update_def validate_latex_control_word_VStr
          segment_simps command_prefix_def)
qed

lemma Environment_validate_ok:
  assumes "m ''name'' = Some (VStr name)" "environment_name_re name"
    and "m ''args'' = Some (opt_str args)" "m ''ops'' = Some (opt_str ops)"
    and "self_defaults st self = Inr dc"
  shows "Environment_validate_and_update self m st =
           (Inr (), upd_defaults dc ''epilog'' (VStr (''\<newline>'' @ BSL # ''end{'' @ name @ ''}%''))
                     (upd_defaults dc ''prolog'' (VStr (environment_prefix name ops args)) st))"
proof -
  have nm: "name \<noteq> []" using assms(2) by auto
  have a: "segment (truthy (opt_str ops)) ''['' (opt_str ops) '']'' =
             Inr (case ops of Some (c # cs) \<Rightarrow> ''['' @ c # cs @ '']'' | _ \<Rightarrow> [])"
    by (cases ops) (auto simp: segment_def split: list.splits)
  have b: "segment (truthy (opt_str args)) ''{'' (opt_str args) ''}'' =
             Inr (case args of Some (c # cs) \<Rightarrow> ''{'' @ c # cs @ ''}'' | _ \<Rightarrow> [])"
    by (cases args) (auto simp: segment_def split: list.splits)
  show ?thesis
    using assms nm
    by (simp add: Environment_validate_and_update_def validate_environment_name_VStr
          a b environment_prefix_def)
qed

lemma new_NewCommand_succeeds:
  assumes "intact st" "conforms kw" "control_word_re name"
    and "(class_defaults st NewCommand ++ kw) ''nargs'' = Some (VInt n)" "0 \<le> n" "n \<le> 9"
    and "(class_defaults st NewCommand ++ kw) ''default'' = Some (opt_str dflt)"
  shows "\<exists>st'. new_NewCommand parent name kw st = (Inr (length (scope_objs st)), st') \<and>
           class_defaults st' NewCommand ''prolog'' = Some (VStr (command_prefix name n dflt))"
proof -
  let ?self = "length (scope_objs st)"
  let ?st0 = "snd (new_object NewCommand st)"
  let ?kw = "kw(''name'' \<mapsto> VStr name)"
  let ?st1 = "upd_defaults NewCommand ''prolog'' (VStr (command_prefix name n dflt)) ?st0"
  let ?up = "fst (options_filter ?kw DocumentPart_Options)"
  let ?down = "snd (options_filter ?kw DocumentPart_Options)"
  let ?st2 = "upd_scope ?self (\<lambda>ob. ob\<lparr>s_settings := Own ?down # s_settings ob\<rparr>) ?st1"
  have sd: "self_defaults ?st0 ?self = Inr NewCommand"
    by (simp add: self_defaults_def scope_at_def new_object_def)
  have v: "NewCommand_validate_and_update ?self (class_defaults ?st0 NewCommand ++ ?kw) ?st0 = (Inr (), ?st1)"
    by (rule NewCommand_validate_ok) (use assms sd in \<open>auto simp: new_object_def map_add_def\<close>)
  have i: "intact ?st2"
    using assms(1) by (auto intro!: intact_upd_defaults simp: intact_def new_object_def)
  have "\<exists>st'. DocumentPart_init ?self parent ?up ?st2 = (Inr (), st')"
    by (rule DocumentPart_init_succeeds[where ups = "[Own ?down]" and cl = NewCommand and kw' = ?kw])
       (use i assms(2) in \<open>auto simp: new_object_def conforms_filter conforms_name chain_get_filtered
          simp del: chain_get.simps OptionsLadder_new_simps\<close>)
  then obtain st' where d: "DocumentPart_init ?self parent ?up ?st2 = (Inr (), st')" ..
  have init: "NewCommand_init ?self parent name kw ?st0 = (Inr (), st')"
    using sd v d by (simp add: NewCommand_init_def Let_def case_prod_unfold)
  then have n: "new_NewCommand parent name kw st = (Inr ?self, st')"
    by (simp add: new_NewCommand_def new_object_def)
  from DocumentPart_init_Inr[OF d]
  have "class_defaults st' NewCommand ''prolog'' = Some (VStr (command_prefix name n dflt))"
    by (auto simp: new_object_def)
  with n show ?thesis by blast
qed

lemma new_Environment_succeeds:
  assumes "intact st" "conforms kw" "environment_name_re name"
    and "(class_defaults st Environment ++ kw) ''args'' = Some (opt_str args)"
    and "(class_defaults st Environment ++ kw) ''ops'' = Some (opt_str ops)"
  shows "\<exists>st'. new_Environment parent name kw st = (Inr (length (scope_objs st)), st') \<and>
           class_defaults st' Environment ''prolog'' = Some (VStr (environment_prefix name ops args)) \<and>
           class_defaults st' Environment ''epilog'' = Some (VStr (''\<newline>'' @ BSL # ''end{'' @ name @ ''}%''))"
proof -
  let ?self = "length (scope_objs st)"
  let ?st0 = "snd (new_object Environment st)"
  let ?kw = "kw(''name'' \<mapsto> VStr name)"
  let ?st1 = "upd_defaults Environment ''epilog'' (VStr (''\<newline>'' @ BSL # ''end{'' @ name @ ''}%''))
                (upd_defaults Environment ''prolog'' (VStr (environment_prefix name ops args)) ?st0)"
  let ?up = "fst (options_filter ?kw DocumentPart_Options)"
  let ?down = "snd (options_filter ?kw DocumentPart_Options)"
  let ?st2 = "upd_scope ?self (\<lambda>ob. ob\<lparr>s_settings := Own ?down # s_settings ob\<rparr>) ?st1"
  have sd: "self_defaults ?st0 ?self = Inr Environment"
    by (simp add: self_defaults_def scope_at_def new_object_def)
  have v: "Environment_validate_and_update ?self (class_defaults ?st0 Environment ++ ?kw) ?st0 = (Inr (), ?st1)"
    by (rule Environment_validate_ok) (use assms sd in \<open>auto simp: new_object_def map_add_def\<close>)
  have i: "intact ?st2"
    using assms(1) by (auto intro!: intact_upd_defaults simp: intact_def new_object_def)
  have "\<exists>st'. DocumentPart_init ?self parent ?up ?st2 = (Inr (), st')"
    by (rule DocumentPart_init_succeeds[where ups = "[Own ?down]" and cl = Environment and kw' = ?kw])
       (use i assms(2) in \<open>auto simp: new_object_def conforms_filter conforms_name chain_get_filtered
          simp del: chain_get.simps OptionsLadder_new_simps\<close>)
  then obtain st' where d: "DocumentPart_init ?self parent ?up ?st2 = (Inr (), st')" ..
  have init: "Environment_init ?self parent name kw ?st0 = (Inr (), st')"
    using sd v d by (simp add: Environment_init_def Let_def case_prod_unfold)
  then have n: "new_Environment parent name kw st = (Inr ?self, st')"
    by (simp add: new_Environment_def new_object_def)
  from DocumentPart_init_Inr[OF d]
  have "class_defaults st' Environment ''prolog'' = Some (VStr (environment_prefix name ops args)) \<and>
        class_defaults st' Environment ''epilog'' = Some (VStr (''\<newline>'' @ BSL # ''end{'' @ name @ ''}%''))"
    by (auto simp: new_object_def)
  with n show ?thesis by blast
qed

section \<open>The computed prefixes\<close>

lemma setting_new_scope:
  assumes "construct k parent kw st = (Inr i, st')" and "supplied k kw key = None"
  shows "setting st' i key = chain_get (class_defaults st') (OptionsLadder_new (ctor_class k)) key"
proof -
  from construct_Inr[OF assms(1)] obtain ob where
    ob: "i = length (scope_objs st)" "scope_objs st' = scope_objs st @ [ob]"
      "\<And>D key. chain_get D (s_settings ob) key =
               (case supplied k kw key of Some v \<Rightarrow> Inr v
                | None \<Rightarrow> chain_get D (OptionsLadder_new (ctor_class k)) key)"
    by blast
  have "setting st' i key = chain_get (class_defaults st') (s_settings ob) key"
    using ob(1,2) by (simp add: setting_def scope_at_def)
  with assms(2) show ?thesis by (simp add: ob(3))
qed

text \<open>
  C5. In an intact state, with keyword arguments of the annotated types that do not
  override \<^verbatim>\<open>prolog\<close>, constructing a \<^verbatim>\<open>NewCommand\<close> whose name is in the command grammar and
  whose argument count in force is between 0 and 9 succeeds, and the prefix the new scope
  reads is \<^verbatim>\<open>\newcommand{\NAME}\<close>, then \<^verbatim>\<open>[nargs]\<close> exactly when the count is positive, then
  \<^verbatim>\<open>[default]\<close> exactly when a default is given, then \<^verbatim>\<open>{%\<close> and a newline. With count 0
  and no default that is \<^verbatim>\<open>\newcommand{\NAME}{%\<close> and a newline, without brackets; with
  count 3 it contains \<^verbatim>\<open>[3]\<close>.
\<close>

theorem NewCommand_prefix:
  assumes "intact st" and "conforms kw" and "command_name name"
    and "(class_defaults st NewCommand ++ kw) ''nargs'' = Some (VInt n)" and "0 \<le> n" and "n \<le> 9"
    and "(class_defaults st NewCommand ++ kw) ''default'' = Some (opt_str dflt)"
    and "kw ''prolog'' = None"
  shows "(\<exists>i st'. new_NewCommand parent name kw st = (Inr i, st') \<and>
            setting st' i ''prolog'' = Inr (VStr (command_prefix name n dflt))) \<and>
         command_prefix name 0 None = BSL # ''newcommand{'' @ BSL # name @ ''}{%\<newline>'' \<and>
         (\<exists>u v. command_prefix name 3 dflt = u @ ''[3]'' @ v)"
proof (intro conjI)
  from new_NewCommand_succeeds[OF assms(1,2) _ assms(4-7), of name parent] assms(3)
  obtain st' where
    c: "new_NewCommand parent name kw st = (Inr (length (scope_objs st)), st')"
    and p: "class_defaults st' NewCommand ''prolog'' = Some (VStr (command_prefix name n dflt))"
    by (auto simp: control_word_re_iff)
  from c have "construct (MkNewCommand name) parent kw st = (Inr (length (scope_objs st)), st')"
    by simp
  from setting_new_scope[OF this, of "''prolog''"] assms(8) p
  have "setting st' (length (scope_objs st)) ''prolog'' = Inr (VStr (command_prefix name n dflt))"
    by simp
  with c show "\<exists>i st'. new_NewCommand parent name kw st = (Inr i, st') \<and>
            setting st' i ''prolog'' = Inr (VStr (command_prefix name n dflt))"
    by blast
next
  show "command_prefix name 0 None = BSL # ''newcommand{'' @ BSL # name @ ''}{%\<newline>''"
    by (simp add: command_prefix_def)
next
  have "str_int 3 = ''3''"
    by (simp add: str_int_def digits.simps digit_char_def)
  then have "command_prefix name 3 dflt =
      (BSL # ''newcommand{'' @ BSL # name @ ''}'') @ ''[3]'' @
      ((case dflt of None \<Rightarrow> [] | Some s \<Rightarrow> ''['' @ s @ '']'') @ ''{%\<newline>'')"
    by (simp add: command_prefix_def)
  then show "\<exists>u v. command_prefix name 3 dflt = u @ ''[3]'' @ v"
    by blast
qed

theorem NewCommand_prefix_witness:
  "intact module_state \<and> conforms [''nargs'' \<mapsto> VInt 3] \<and> command_name ''greet'' \<and>
   (\<exists>i st'. new_NewCommand None ''greet'' [''nargs'' \<mapsto> VInt 3] module_state = (Inr i, st') \<and>
        setting st' i ''prolog'' = Inr (VStr (BSL # ''newcommand{'' @ BSL # ''greet}[3]{%\<newline>'')))"
proof -
  have i: "intact module_state"
    by (simp add: intact_def module_state_def)
  have c: "conforms [''nargs'' \<mapsto> VInt 3]"
    by (simp add: conforms_def annotated_def)
  have g: "command_name ''greet''"
    by (simp add: control_word_re_iff[symmetric] is_letter_def)
  have n: "(class_defaults module_state NewCommand ++ [''nargs'' \<mapsto> VInt 3]) ''nargs'' = Some (VInt 3)"
    by simp
  have d: "(class_defaults module_state NewCommand ++ [''nargs'' \<mapsto> VInt 3]) ''default'' = Some (opt_str None)"
    by (simp add: module_state_def NewCommand_defaults_def map_add_def)
  have e: "command_prefix ''greet'' 3 None = BSL # ''newcommand{'' @ BSL # ''greet}[3]{%\<newline>''"
    by (simp add: command_prefix_def str_int_def digits.simps digit_char_def)
  from NewCommand_prefix[OF i c g n _ _ d, of None] i c g e show ?thesis
    by simp
qed

text \<open>
  C10. In an intact state, with keyword arguments of the annotated types that do not
  override \<^verbatim>\<open>prolog\<close>, constructing an \<^verbatim>\<open>Environment\<close> whose name is in the environment
  grammar succeeds, and the prefix the new scope reads is \<^verbatim>\<open>\begin{NAME}\<close>, then \<^verbatim>\<open>[ops]\<close>
  exactly when \<^verbatim>\<open>ops\<close> is a non-empty string, then \<^verbatim>\<open>{args}\<close> exactly when \<^verbatim>\<open>args\<close> is a
  non-empty string, then \<^verbatim>\<open>%\<close> and a newline. An empty string for either gives the prefix
  that \<^verbatim>\<open>None\<close> gives.
\<close>

theorem Environment_prefix:
  assumes "intact st" and "conforms kw" and "environment_name name"
    and "(class_defaults st Environment ++ kw) ''ops'' = Some (opt_str ops)"
    and "(class_defaults st Environment ++ kw) ''args'' = Some (opt_str args)"
    and "kw ''prolog'' = None"
  shows "(\<exists>i st'. new_Environment parent name kw st = (Inr i, st') \<and>
            setting st' i ''prolog'' = Inr (VStr (environment_prefix name ops args))) \<and>
         environment_prefix name (Some []) args = environment_prefix name None args \<and>
         environment_prefix name ops (Some []) = environment_prefix name ops None"
proof (intro conjI)
  from new_Environment_succeeds[OF assms(1,2) _ assms(5,4), of name parent] assms(3)
  obtain st' where
    c: "new_Environment parent name kw st = (Inr (length (scope_objs st)), st')"
    and p: "class_defaults st' Environment ''prolog'' = Some (VStr (environment_prefix name ops args))"
    by (auto simp: environment_name_re_iff)
  from c have "construct (MkEnvironment name) parent kw st = (Inr (length (scope_objs st)), st')"
    by simp
  from setting_new_scope[OF this, of "''prolog''"] assms(6) p
  have "setting st' (length (scope_objs st)) ''prolog'' = Inr (VStr (environment_prefix name ops args))"
    by simp
  with c show "\<exists>i st'. new_Environment parent name kw st = (Inr i, st') \<and>
            setting st' i ''prolog'' = Inr (VStr (environment_prefix name ops args))"
    by blast
qed (simp_all add: environment_prefix_def)

theorem Environment_prefix_witness:
  "intact module_state \<and> conforms [''ops'' \<mapsto> VStr [], ''args'' \<mapsto> VStr ''c''] \<and>
   environment_name ''tabular'' \<and>
   (\<exists>i st'. new_Environment None ''tabular'' [''ops'' \<mapsto> VStr [], ''args'' \<mapsto> VStr ''c''] module_state
               = (Inr i, st') \<and>
        setting st' i ''prolog'' = Inr (VStr (BSL # ''begin{tabular}{c}%\<newline>'')))"
proof -
  let ?kw = "[''ops'' \<mapsto> VStr [], ''args'' \<mapsto> VStr ''c'']"
  have i: "intact module_state"
    by (simp add: intact_def module_state_def)
  have c: "conforms ?kw"
    by (simp add: conforms_def annotated_def)
  have g: "environment_name ''tabular''"
    by (simp add: environment_name_re_iff[symmetric] is_letter_def)
  have o: "(class_defaults module_state Environment ++ ?kw) ''ops'' = Some (opt_str (Some []))"
    by simp
  have a: "(class_defaults module_state Environment ++ ?kw) ''args'' = Some (opt_str (Some ''c''))"
    by simp
  have e: "environment_prefix ''tabular'' (Some []) (Some ''c'') = BSL # ''begin{tabular}{c}%\<newline>''"
    by (simp add: environment_prefix_def)
  have pr: "?kw ''prolog'' = None"
    by simp
  from Environment_prefix[OF i c g o a pr, of None, THEN conjunct1]
  show ?thesis
    using i c g unfolding e by blast
qed

section \<open>Validation at construction\<close>

lemma in_force_NewCommand:
  assumes "intact st" "conforms kw"
  shows "\<exists>n. (class_defaults st NewCommand ++ kw) ''nargs'' = Some (VInt n)"
    and "\<exists>dflt. (class_defaults st NewCommand ++ kw) ''default'' = Some (opt_str dflt)"
proof -
  have d: "class_defaults st NewCommand ''nargs'' = Some (VInt 0)"
    "class_defaults st NewCommand ''default'' = Some VNone"
    using assms(1) by (simp_all add: intact_def NewCommand_defaults_def)
  show "\<exists>n. (class_defaults st NewCommand ++ kw) ''nargs'' = Some (VInt n)"
  proof (cases "kw ''nargs''")
    case None
    with d show ?thesis by (simp add: map_add_def)
  next
    case (Some v)
    with assms(2) have "is_int v" by (auto simp: conforms_def annotated_def)
    with Some show ?thesis by (cases v) (auto simp: map_add_def)
  qed
  show "\<exists>dflt. (class_defaults st NewCommand ++ kw) ''default'' = Some (opt_str dflt)"
  proof (cases "kw ''default''")
    case None
    with d have "(class_defaults st NewCommand ++ kw) ''default'' = Some (opt_str None)"
      by (simp add: map_add_def)
    then show ?thesis ..
  next
    case (Some v)
    with assms(2) have "is_str v \<or> is_None v" by (auto simp: conforms_def annotated_def)
    then obtain dflt where "v = opt_str dflt"
      by (cases v) (auto intro: opt_str.simps[symmetric])
    with Some have "(class_defaults st NewCommand ++ kw) ''default'' = Some (opt_str dflt)"
      by (simp add: map_add_def)
    then show ?thesis ..
  qed
qed

lemma in_force_opt:
  assumes "conforms kw" "D k = Some VNone" "k = ''args'' \<or> k = ''ops''"
  shows "\<exists>x. (D ++ kw) k = Some (opt_str x)"
proof (cases "kw k")
  case None
  with assms(2) have "(D ++ kw) k = Some (opt_str None)"
    by (simp add: map_add_def)
  then show ?thesis ..
next
  case (Some v)
  with assms(1) have "annotated k v" by (simp add: conforms_def)
  with assms(3) have "is_str v \<or> is_None v" by (auto simp: annotated_def)
  then obtain x where "v = opt_str x"
    by (cases v) (auto intro: opt_str.simps[symmetric])
  with Some have "(D ++ kw) k = Some (opt_str x)"
    by (simp add: map_add_def)
  then show ?thesis ..
qed

lemma in_force_Environment:
  assumes "intact st" "conforms kw"
  shows "\<exists>x. (class_defaults st Environment ++ kw) ''args'' = Some (opt_str x)"
    and "\<exists>x. (class_defaults st Environment ++ kw) ''ops'' = Some (opt_str x)"
proof -
  have d: "class_defaults st Environment ''args'' = Some VNone"
    "class_defaults st Environment ''ops'' = Some VNone"
    using assms(1) by (simp_all add: intact_def Environment_defaults_def)
  show "\<exists>x. (class_defaults st Environment ++ kw) ''args'' = Some (opt_str x)"
    by (rule in_force_opt[where D = "class_defaults st Environment" and k = "''args''", OF assms(2) d(1)]) simp
  show "\<exists>x. (class_defaults st Environment ++ kw) ''ops'' = Some (opt_str x)"
    by (rule in_force_opt[where D = "class_defaults st Environment" and k = "''ops''", OF assms(2) d(2)]) simp
qed

lemma NewCommand_validate_fails:
  assumes "m ''name'' = Some (VStr name)" "m ''nargs'' = Some (VInt n)" "m ''default'' = Some d"
    and "\<not> (control_word_re name \<and> 0 \<le> n \<and> n \<le> 9)"
  shows "\<exists>r. NewCommand_validate_and_update self m st = (Inl (ValueError r), st)"
  using assms
  by (auto simp: NewCommand_validate_and_update_def validate_latex_control_word_VStr)

lemma Environment_validate_fails:
  assumes "m ''name'' = Some (VStr name)" "m ''args'' = Some a" "m ''ops'' = Some b"
    and "\<not> environment_name_re name"
  shows "\<exists>r. Environment_validate_and_update self m st = (Inl (ValueError r), st)"
  using assms
  by (auto simp: Environment_validate_and_update_def validate_environment_name_VStr)

lemma new_NewCommand_fails:
  assumes "intact st" "conforms kw" "(class_defaults st NewCommand ++ kw) ''nargs'' = Some (VInt n)"
    and "\<not> (control_word_re name \<and> 0 \<le> n \<and> n \<le> 9)"
  shows "\<exists>r. new_NewCommand parent name kw st = (Inl (ValueError r), snd (new_object NewCommand st))"
proof -
  let ?self = "length (scope_objs st)"
  let ?st0 = "snd (new_object NewCommand st)"
  let ?kw = "kw(''name'' \<mapsto> VStr name)"
  have sd: "self_defaults ?st0 ?self = Inr NewCommand"
    by (simp add: self_defaults_def scope_at_def new_object_def)
  from in_force_NewCommand(2)[OF assms(1,2)] obtain dflt where
    d: "(class_defaults st NewCommand ++ kw) ''default'' = Some (opt_str dflt)" ..
  have "\<exists>r. NewCommand_validate_and_update ?self (class_defaults ?st0 NewCommand ++ ?kw) ?st0 = (Inl (ValueError r), ?st0)"
    by (rule NewCommand_validate_fails[where name = name and n = n and d = "opt_str dflt"])
       (use assms(3,4) d in \<open>auto simp: new_object_def map_add_def\<close>)
  with sd show ?thesis
    by (auto simp: new_NewCommand_def NewCommand_init_def Let_def new_object_def)
qed

lemma new_Environment_fails:
  assumes "intact st" "conforms kw" "\<not> environment_name_re name"
  shows "\<exists>r. new_Environment parent name kw st = (Inl (ValueError r), snd (new_object Environment st))"
proof -
  let ?self = "length (scope_objs st)"
  let ?st0 = "snd (new_object Environment st)"
  let ?kw = "kw(''name'' \<mapsto> VStr name)"
  have sd: "self_defaults ?st0 ?self = Inr Environment"
    by (simp add: self_defaults_def scope_at_def new_object_def)
  from in_force_Environment(1)[OF assms(1,2)] obtain a where
    a: "(class_defaults st Environment ++ kw) ''args'' = Some (opt_str a)" ..
  from in_force_Environment(2)[OF assms(1,2)] obtain b where
    b: "(class_defaults st Environment ++ kw) ''ops'' = Some (opt_str b)" ..
  have "\<exists>r. Environment_validate_and_update ?self (class_defaults ?st0 Environment ++ ?kw) ?st0 = (Inl (ValueError r), ?st0)"
    by (rule Environment_validate_fails[where name = name and a = "opt_str a" and b = "opt_str b"])
       (use assms(3) a b in \<open>auto simp: new_object_def map_add_def\<close>)
  with sd show ?thesis
    by (auto simp: new_Environment_def Environment_init_def Let_def new_object_def)
qed

text \<open>
  C6. In an intact state, with keyword arguments of the annotated types and \<open>n\<close> the
  argument count in force: constructing a \<^verbatim>\<open>NewCommand\<close> returns a scope when the name is in
  the command grammar and \<open>n\<close> is between 0 and 9, and otherwise raises \<^verbatim>\<open>ValueError\<close>;
  constructing an \<^verbatim>\<open>Environment\<close> returns a scope when the name is in the environment
  grammar, and otherwise raises \<^verbatim>\<open>ValueError\<close>. So each raises exactly in the invalid cases
  (the empty name is in neither grammar). When it raises, validation has run before anything
  was written: the \<^verbatim>\<open>_defaults\<close> dictionaries, the lists and the existing scopes are as
  before, and the object that was allocated has no instance attribute and is referred to by
  nothing, the caller included.
\<close>

theorem construction_validation:
  assumes "intact st" and "conforms kw"
    and "(class_defaults st NewCommand ++ kw) ''nargs'' = Some (VInt n)"
  shows "(command_name name \<and> 0 \<le> n \<and> n \<le> 9 \<longrightarrow>
            (\<exists>i st'. new_NewCommand parent name kw st = (Inr i, st'))) \<and>
         (\<not> (command_name name \<and> 0 \<le> n \<and> n \<le> 9) \<longrightarrow>
            (\<exists>r. new_NewCommand parent name kw st =
               (Inl (ValueError r),
                st\<lparr>scope_objs := scope_objs st @
                     [\<lparr>s_class = NewCommand, s_settings = OptionsLadder_new NewCommand,
                       s_result = None, s_parent = None, s_data = None\<rparr>]\<rparr>))) \<and>
         (environment_name name \<longrightarrow>
            (\<exists>i st'. new_Environment parent name kw st = (Inr i, st'))) \<and>
         (\<not> environment_name name \<longrightarrow>
            (\<exists>r. new_Environment parent name kw st =
               (Inl (ValueError r),
                st\<lparr>scope_objs := scope_objs st @
                     [\<lparr>s_class = Environment, s_settings = OptionsLadder_new Environment,
                       s_result = None, s_parent = None, s_data = None\<rparr>]\<rparr>)))"
proof (intro conjI impI)
  assume v: "command_name name \<and> 0 \<le> n \<and> n \<le> 9"
  from in_force_NewCommand(2)[OF assms(1,2)] obtain dflt where
    d: "(class_defaults st NewCommand ++ kw) ''default'' = Some (opt_str dflt)" ..
  from new_NewCommand_succeeds[OF assms(1,2) _ assms(3) _ _ d, of name parent] v
  show "\<exists>i st'. new_NewCommand parent name kw st = (Inr i, st')"
    by (auto simp: control_word_re_iff)
next
  assume "\<not> (command_name name \<and> 0 \<le> n \<and> n \<le> 9)"
  then have "\<not> (control_word_re name \<and> 0 \<le> n \<and> n \<le> 9)"
    by (simp add: control_word_re_iff)
  from new_NewCommand_fails[OF assms this, of parent]
  show "\<exists>r. new_NewCommand parent name kw st =
               (Inl (ValueError r),
                st\<lparr>scope_objs := scope_objs st @
                     [\<lparr>s_class = NewCommand, s_settings = OptionsLadder_new NewCommand,
                       s_result = None, s_parent = None, s_data = None\<rparr>]\<rparr>)"
    by (simp add: new_object_def del: OptionsLadder_new_simps)
next
  assume v: "environment_name name"
  from in_force_Environment(1)[OF assms(1,2)] obtain a where
    a: "(class_defaults st Environment ++ kw) ''args'' = Some (opt_str a)" ..
  from in_force_Environment(2)[OF assms(1,2)] obtain b where
    b: "(class_defaults st Environment ++ kw) ''ops'' = Some (opt_str b)" ..
  from new_Environment_succeeds[OF assms(1,2) _ a b, of name parent] v
  show "\<exists>i st'. new_Environment parent name kw st = (Inr i, st')"
    by (auto simp: environment_name_re_iff)
next
  assume "\<not> environment_name name"
  then have "\<not> environment_name_re name"
    by (simp add: environment_name_re_iff)
  from new_Environment_fails[OF assms(1,2) this, of parent]
  show "\<exists>r. new_Environment parent name kw st =
               (Inl (ValueError r),
                st\<lparr>scope_objs := scope_objs st @
                     [\<lparr>s_class = Environment, s_settings = OptionsLadder_new Environment,
                       s_result = None, s_parent = None, s_data = None\<rparr>]\<rparr>)"
    by (simp add: new_object_def del: OptionsLadder_new_simps)
qed

theorem construction_validation_witness:
  "intact module_state \<and> conforms [''nargs'' \<mapsto> VInt 10] \<and>
   \<not> command_name ''2col'' \<and> \<not> environment_name ''2col'' \<and> environment_name ''itemize'' \<and>
   (\<exists>r. fst (new_NewCommand None ''greet'' [''nargs'' \<mapsto> VInt 10] module_state) = Inl (ValueError r)) \<and>
   (\<exists>r. fst (new_Environment None ''2col'' [''nargs'' \<mapsto> VInt 10] module_state) = Inl (ValueError r)) \<and>
   (\<exists>i. fst (new_Environment None ''itemize'' [''nargs'' \<mapsto> VInt 10] module_state) = Inr i)"
proof -
  let ?kw = "[''nargs'' \<mapsto> VInt 10]"
  have i: "intact module_state"
    by (simp add: intact_def module_state_def)
  have c: "conforms ?kw"
    by (simp add: conforms_def annotated_def)
  have n: "(class_defaults module_state NewCommand ++ ?kw) ''nargs'' = Some (VInt 10)"
    by simp
  have g: "\<not> command_name ''2col''" "\<not> environment_name ''2col''" "environment_name ''itemize''"
    by (simp_all add: control_word_re_iff[symmetric] environment_name_re_iff[symmetric] is_letter_def)
  note t = construction_validation[OF i c n]
  from t[of "''greet''" None]
  have a: "\<exists>r. fst (new_NewCommand None ''greet'' ?kw module_state) = Inl (ValueError r)"
    by auto
  from t[of "''2col''" None] g(2)
  have b: "\<exists>r. fst (new_Environment None ''2col'' ?kw module_state) = Inl (ValueError r)"
    by auto
  from t[of "''itemize''" None] g(3)
  have d: "\<exists>i. fst (new_Environment None ''itemize'' ?kw module_state) = Inr i"
    by auto
  from i c g a b d show ?thesis by blast
qed

section \<open>Open and closed scopes\<close>

text \<open>Frames: what each operation leaves alone, whatever its outcome.\<close>

lemma scope_at_append_old:
  "i < length (scope_objs st) \<Longrightarrow> scope_objs st' = scope_objs st @ xs \<Longrightarrow> scope_at st' i = scope_at st i"
  by (simp add: scope_at_def nth_append)

lemma Assemblable_init_frame:
  assumes "Assemblable_init self parent kw st = (r, st')" and "j \<noteq> self"
  shows "scope_at st' j = scope_at st j"
  using assms
  by (auto simp: Assemblable_init_def Let_def AssembleList_init_def alloc_list_def scope_at_def upd_scope_def
      split: sum.splits val.splits if_splits prod.splits)

lemma DocumentPart_init_frame:
  assumes "DocumentPart_init self parent kw st = (r, st')" and "j \<noteq> self"
  shows "scope_at st' j = scope_at st j"
proof (cases "self_defaults st self")
  case (Inl e)
  with assms show ?thesis by (simp add: DocumentPart_init_def)
next
  case (Inr c)
  with assms(1) have "Assemblable_init self parent (fst (options_filter kw Assemblable_Options))
     (upd_scope self (\<lambda>ob. ob\<lparr>s_settings := Own (snd (options_filter kw Assemblable_Options)) # s_settings ob\<rparr>)
        (upd_defaults c ''pipeline'' (VPipeline [p_join_of self, p_wrap_of self]) st)) = (r, st')"
    by (simp add: DocumentPart_init_def Let_def case_prod_unfold)
  from Assemblable_init_frame[OF this assms(2)] assms(2) show ?thesis by simp
qed

lemma validate_frame:
  "NewCommand_validate_and_update self m st = (r, st1) \<Longrightarrow> scope_at st1 = scope_at st"
  "Environment_validate_and_update self m st = (r', st2) \<Longrightarrow> scope_at st2 = scope_at st"
  by (auto simp: NewCommand_validate_and_update_def Environment_validate_and_update_def
      split: option.splits sum.splits val.splits if_splits)

lemma NewCommand_init_frame:
  assumes "NewCommand_init self parent name kw st = (r, st')" and "j \<noteq> self"
  shows "scope_at st' j = scope_at st j"
proof (cases "self_defaults st self")
  case (Inl e)
  with assms show ?thesis by (simp add: NewCommand_init_def)
next
  case (Inr c)
  let ?kw = "kw(''name'' \<mapsto> VStr name)"
  obtain r1 st1 where v: "NewCommand_validate_and_update self (class_defaults st c ++ ?kw) st = (r1, st1)"
    by (cases "NewCommand_validate_and_update self (class_defaults st c ++ ?kw) st")
  note f = validate_frame(1)[OF v]
  show ?thesis
  proof (cases r1)
    case (Inl e)
    with v Inr assms f show ?thesis by (auto simp: NewCommand_init_def Let_def)
  next
    case (Inr u)
    with v \<open>self_defaults st self = Inr c\<close> assms(1)
    have "DocumentPart_init self parent (fst (options_filter ?kw DocumentPart_Options))
       (upd_scope self (\<lambda>ob. ob\<lparr>s_settings := Own (snd (options_filter ?kw DocumentPart_Options)) # s_settings ob\<rparr>) st1)
       = (r, st')"
      by (simp add: NewCommand_init_def Let_def case_prod_unfold)
    from DocumentPart_init_frame[OF this assms(2)] assms(2) f show ?thesis by simp
  qed
qed

lemma Environment_init_frame:
  assumes "Environment_init self parent name kw st = (r, st')" and "j \<noteq> self"
  shows "scope_at st' j = scope_at st j"
proof (cases "self_defaults st self")
  case (Inl e)
  with assms show ?thesis by (simp add: Environment_init_def)
next
  case (Inr c)
  let ?kw = "kw(''name'' \<mapsto> VStr name)"
  obtain r1 st1 where v: "Environment_validate_and_update self (class_defaults st c ++ ?kw) st = (r1, st1)"
    by (cases "Environment_validate_and_update self (class_defaults st c ++ ?kw) st")
  note f = validate_frame(2)[OF v]
  show ?thesis
  proof (cases r1)
    case (Inl e)
    with v Inr assms f show ?thesis by (auto simp: Environment_init_def Let_def)
  next
    case (Inr u)
    with v \<open>self_defaults st self = Inr c\<close> assms(1)
    have "DocumentPart_init self parent (fst (options_filter ?kw DocumentPart_Options))
       (upd_scope self (\<lambda>ob. ob\<lparr>s_settings := Own (snd (options_filter ?kw DocumentPart_Options)) # s_settings ob\<rparr>) st1)
       = (r, st')"
      by (simp add: Environment_init_def Let_def case_prod_unfold)
    from DocumentPart_init_frame[OF this assms(2)] assms(2) f show ?thesis by simp
  qed
qed

lemma scope_at_new_object:
  "i < length (scope_objs st) \<Longrightarrow> scope_at (snd (new_object c st)) i = scope_at st i"
  by (simp add: scope_at_def new_object_def nth_append)

lemma fst_new_object [simp]: "fst (new_object c st) = length (scope_objs st)"
  by (simp add: new_object_def)

lemma construct_frame:
  assumes "i < length (scope_objs st)"
  shows "scope_at (snd (construct k parent kw st)) i = scope_at st i"
proof -
  have ne: "i \<noteq> length (scope_objs st)" using assms by simp
  show ?thesis
  proof (cases k)
    case MkAssemblable
    obtain r st' where a: "Assemblable_init (length (scope_objs st)) parent kw (snd (new_object Assemblable st)) = (r, st')"
      by (cases "Assemblable_init (length (scope_objs st)) parent kw (snd (new_object Assemblable st))")
    from a MkAssemblable have "snd (construct k parent kw st) = st'"
      by (simp add: new_Assemblable_def case_prod_unfold split: sum.splits)
    with Assemblable_init_frame[OF a ne] scope_at_new_object[OF assms] show ?thesis
      by simp
  next
    case MkDocumentPart
    obtain r st' where a: "DocumentPart_init (length (scope_objs st)) parent kw (snd (new_object DocumentPart st)) = (r, st')"
      by (cases "DocumentPart_init (length (scope_objs st)) parent kw (snd (new_object DocumentPart st))")
    from a MkDocumentPart have "snd (construct k parent kw st) = st'"
      by (simp add: new_DocumentPart_def case_prod_unfold split: sum.splits)
    with DocumentPart_init_frame[OF a ne] scope_at_new_object[OF assms] show ?thesis
      by simp
  next
    case (MkNewCommand n)
    obtain r st' where a: "NewCommand_init (length (scope_objs st)) parent n kw (snd (new_object NewCommand st)) = (r, st')"
      by (cases "NewCommand_init (length (scope_objs st)) parent n kw (snd (new_object NewCommand st))")
    from a MkNewCommand have "snd (construct k parent kw st) = st'"
      by (simp add: new_NewCommand_def case_prod_unfold split: sum.splits)
    with NewCommand_init_frame[OF a ne] scope_at_new_object[OF assms] show ?thesis
      by simp
  next
    case (MkEnvironment n)
    obtain r st' where a: "Environment_init (length (scope_objs st)) parent n kw (snd (new_object Environment st)) = (r, st')"
      by (cases "Environment_init (length (scope_objs st)) parent n kw (snd (new_object Environment st))")
    from a MkEnvironment have "snd (construct k parent kw st) = st'"
      by (simp add: new_Environment_def case_prod_unfold split: sum.splits)
    with Environment_init_frame[OF a ne] scope_at_new_object[OF assms] show ?thesis
      by simp
  qed
qed

lemma scope_at_list_extend [simp]: "scope_at (snd (list_extend a xs st)) = scope_at st"
  by (rule ext) (simp add: list_extend_def scope_at_def split: option.splits)

lemma scope_at_alloc_list [simp]: "scope_at (snd (alloc_list c xs ctx st)) = scope_at st"
  by (rule ext) (simp add: alloc_list_def scope_at_def)

lemma Assemblable_exit_frame:
  assumes "j \<noteq> i"
  shows "scope_at (snd (Assemblable_exit i exc st)) j = scope_at st j"
  using assms
  by (auto simp: Assemblable_exit_def Let_def list_extend_def scope_at_def upd_scope_def
      split: option.splits sum.splits prod.splits)

lemma step_keeps_open:
  assumes "scope_at st i = Some ob" and "\<forall>e. x \<noteq> Exit i e"
  shows "scope_at (step x st) i = Some ob"
proof -
  have lt: "i < length (scope_objs st)"
    using assms(1) by (simp add: scope_at_def split: if_splits)
  show ?thesis
  proof (cases x)
    case (Construct k parent kw)
    with construct_frame[OF lt] assms(1) show ?thesis by simp
  next
    case (Exit j e)
    with assms(2) have "i \<noteq> j" by auto
    with Exit Assemblable_exit_frame[of i j] assms(1) show ?thesis by simp
  qed (use assms(1) in \<open>simp_all add: list_append_def desc_item_def rule_def\<close>)
qed

lemma run_keeps_open:
  assumes "scope_at st i = Some ob" and "\<forall>e. Exit i e \<notin> set ops"
  shows "scope_at (run ops st) i = Some ob"
  using assms
proof (induction ops arbitrary: st)
  case Nil
  then show ?case by simp
next
  case (Cons x xs)
  from Cons.prems have "scope_at (step x st) i = Some ob"
    by (intro step_keeps_open) auto
  with Cons show ?case by simp
qed


text \<open>Leaving a scope.\<close>

lemma res_items_cong:
  "list_objs st' = list_objs st \<Longrightarrow> res_items st' r = res_items st r"
  by (simp add: res_items_def list_at_def split: res.splits)

lemma res_items_upd_scope [simp]: "res_items (upd_scope i f st) r = res_items st r"
  by (rule res_items_cong) simp

lemma res_items_scope_objs_update [simp]: "res_items (st\<lparr>scope_objs := x\<rparr>) r = res_items st r"
  by (rule res_items_cong) simp

lemma run_stages_NewList:
  "run_stages st fs (NewList x) \<noteq> Inr (SameList a)"
  by (induction fs arbitrary: x) (auto simp: res_items_def split: sum.splits)

lemma run_stages_SameList:
  "run_stages st fs (SameList d) = Inr (SameList a) \<Longrightarrow> a = d \<and> fs = []"
  by (cases fs) (auto simp: run_stages_NewList split: sum.splits)

lemma run_pipeline_SameList:
  "run_pipeline st i d = Inr (SameList a) \<Longrightarrow> a = d"
  by (auto simp: run_pipeline_def split: sum.splits dest: run_stages_SameList)

lemma Assemblable_exit_Inr:
  assumes "Assemblable_exit self exc st = (Inr b, st')"
  shows "\<exists>ob d r xs. scope_at st self = Some ob \<and> s_data ob = Some d \<and>
           run_pipeline st self d = Inr r \<and> \<not> b \<and>
           scope_objs st' = (scope_objs st)[self := ob\<lparr>s_result := Some r\<rparr>] \<and>
           class_defaults st' = class_defaults st \<and>
           (case s_parent ob of
              None \<Rightarrow> list_objs st' = list_objs st
            | Some p \<Rightarrow> res_items st r = Inr xs \<and> p < length (list_objs st) \<and>
                list_objs st' = (list_objs st)[p := (list_objs st ! p)\<lparr>items := items (list_objs st ! p) @ xs\<rparr>])"
  using assms
  by (auto simp: Assemblable_exit_def Let_def list_extend_def list_at_def scope_at_def upd_scope_def
      split: option.splits sum.splits prod.splits if_splits)

lemma Assemblable_exit_ok:
  assumes "scope_at st self = Some ob" and "s_data ob = Some d" and "s_parent ob = Some p"
    and "p < length (list_objs st)" and "run_pipeline st self d = Inr r" and "res_items st r = Inr xs"
  shows "Assemblable_exit self exc st =
           (Inr False,
            st\<lparr>scope_objs := (scope_objs st)[self := ob\<lparr>s_result := Some r\<rparr>],
               list_objs := (list_objs st)[p := (list_objs st ! p)\<lparr>items := items (list_objs st ! p) @ xs\<rparr>]\<rparr>)"
  using assms
  by (auto simp: Assemblable_exit_def Let_def list_extend_def list_at_def scope_at_def upd_scope_def
      split: if_splits)

lemma Assemblable_exit_orphan:
  assumes "scope_at st self = Some ob" and "s_data ob = Some d" and "s_parent ob = None"
    and "run_pipeline st self d = Inr r"
  shows "Assemblable_exit self exc st =
           (Inr False, st\<lparr>scope_objs := (scope_objs st)[self := ob\<lparr>s_result := Some r\<rparr>]\<rparr>)"
  using assms
  by (auto simp: Assemblable_exit_def Let_def scope_at_def upd_scope_def split: if_splits)


lemma one_part_eq:
  "one_part =
     \<lparr>class_defaults =
        declared_defaults
        (DocumentPart :=
           [''list_type'' \<mapsto> VClass LatexList, ''name'' \<mapsto> VNone,
            ''prolog'' \<mapsto> VStr [], ''epilog'' \<mapsto> VStr [],
            ''delimiter'' \<mapsto> VStr ''\<newline>'',
            ''pipeline'' \<mapsto> VPipeline [p_join_of 0, p_wrap_of 0]]),
      list_objs =
        [\<lparr>items = [''p''], l_class = AssembleList, l_context = None\<rparr>,
         \<lparr>items = [], l_class = LatexList, l_context = Some 0\<rparr>],
      scope_objs =
        [\<lparr>s_class = DocumentPart,
          s_settings =
            [Own Map.empty, Own Map.empty, Defaults DocumentPart, Defaults Assemblable, Own Map.empty],
          s_result = None, s_parent = Some 0, s_data = Some 1\<rparr>]\<rparr>"
  by (simp add: one_part_def model_defs)

text \<open>
  C3. Take a \<^verbatim>\<open>with\<close> statement on a scope, whatever its body does and however the body
  ends, normally or with an exception. If, when the body ends, the scope has a parent list
  and its configured pipeline runs without raising over the contents its list has at that
  moment, then the statement ends exactly as the body did (an exception goes on, nothing is
  suppressed), and the state differs from the one the body left in two places only: the
  scope's result is the pipeline's output, and the parent list has the items of that output
  appended, once.
\<close>

theorem exit_propagates:
  assumes "Assemblable_enter self st = Inr d"
    and "body d st = (outcome, st1)"
    and "scope_at st1 self = Some ob" and "s_data ob = Some d1"
    and "s_parent ob = Some p" and "p < length (list_objs st1)"
    and "setting st1 self ''pipeline'' = Inr (VPipeline fs)"
    and "run_stages st1 fs (SameList d1) = Inr r" and "res_items st1 r = Inr xs"
  shows "with_stmt self body st =
           (outcome,
            st1\<lparr>scope_objs := (scope_objs st1)[self := ob\<lparr>s_result := Some r\<rparr>],
                list_objs := (list_objs st1)[p := (list_objs st1 ! p)\<lparr>items := items (list_objs st1 ! p) @ xs\<rparr>]\<rparr>)"
proof -
  have "run_pipeline st1 self d1 = Inr r"
    using assms(7,8) by (simp add: run_pipeline_def)
  from Assemblable_exit_ok[OF assms(3-6) this assms(9)]
  have "Assemblable_exit self exc st1 =
           (Inr False,
            st1\<lparr>scope_objs := (scope_objs st1)[self := ob\<lparr>s_result := Some r\<rparr>],
                list_objs := (list_objs st1)[p := (list_objs st1 ! p)\<lparr>items := items (list_objs st1 ! p) @ xs\<rparr>]\<rparr>)" for exc .
  with assms(1,2) show ?thesis
    by (cases outcome) (simp_all add: with_stmt_def)
qed
theorem exit_propagates_witness:
  "fst (with_stmt 0 (\<lambda>d s. (Inl TypeError, append_all d [''a'', ''b''] s)) one_part) = Inl TypeError \<and>
   map items (list_objs (snd (with_stmt 0 (\<lambda>d s. (Inl TypeError, append_all d [''a'', ''b''] s)) one_part)))
     = [[''p'', ''a\<newline>b''], [''a'', ''b'']]"
proof -
  let ?body = "\<lambda>d s. (Inl TypeError :: error + unit, append_all d [''a'', ''b''] s)"
  let ?ob = "\<lparr>s_class = DocumentPart,
          s_settings =
            [Own Map.empty, Own Map.empty, Defaults DocumentPart, Defaults Assemblable, Own Map.empty],
          s_result = None, s_parent = Some 0, s_data = Some 1\<rparr>"
  define st1 where "st1 = append_all 1 [''a'', ''b''] one_part"
  have st1: "st1 = one_part\<lparr>list_objs :=
        [\<lparr>items = [''p''], l_class = AssembleList, l_context = None\<rparr>,
         \<lparr>items = [''a'', ''b''], l_class = LatexList, l_context = Some 0\<rparr>]\<rparr>"
    by (simp add: st1_def one_part_eq list_append_def list_extend_def list_at_def)
  have e: "Assemblable_enter 0 one_part = Inr 1"
    by (simp add: one_part_eq Assemblable_enter_def scope_at_def)
  have b: "?body 1 one_part = (Inl TypeError, st1)"
    by (simp add: st1_def)
  have ob: "scope_at st1 0 = Some ?ob"
    by (simp add: st1 one_part_eq scope_at_def)
  have p: "setting st1 0 ''pipeline'' = Inr (VPipeline [p_join_of 0, p_wrap_of 0])"
    by (simp add: st1 one_part_eq setting_def scope_at_def)
  have r: "run_stages st1 [p_join_of 0, p_wrap_of 0] (SameList 1) = Inr (NewList [''a\<newline>b''])"
    by (simp add: st1 one_part_eq setting_def scope_at_def res_items_def list_at_def p_join_def p_wrap_def
        DocumentPart_defaults_def)
  have "with_stmt 0 ?body one_part =
      (Inl TypeError,
       st1\<lparr>scope_objs := (scope_objs st1)[0 := ?ob\<lparr>s_result := Some (NewList [''a\<newline>b''])\<rparr>],
           list_objs := (list_objs st1)[0 := (list_objs st1 ! 0)\<lparr>items := items (list_objs st1 ! 0) @ [''a\<newline>b'']\<rparr>]\<rparr>)"
    by (rule exit_propagates[where self = 0 and st = one_part and d = 1 and body = ?body
          and outcome = "Inl TypeError" and ?st1.0 = st1 and ob = ?ob and ?d1.0 = 1 and p = 0
          and fs = "[p_join_of 0, p_wrap_of 0]" and r = "NewList [''a\<newline>b'']" and xs = "[''a\<newline>b'']",
          OF e b ob _ _ _ p r])
       (simp_all add: st1 one_part_eq res_items_def)
  then show ?thesis
    by (simp add: st1)
qed

section \<open>The identity pipeline\<close>

lemma plain_scope_eq:
  "plain_scope =
     \<lparr>class_defaults = declared_defaults,
      list_objs =
        [\<lparr>items = [''p''], l_class = AssembleList, l_context = None\<rparr>,
         \<lparr>items = [], l_class = AssembleList, l_context = Some 0\<rparr>],
      scope_objs =
        [\<lparr>s_class = Assemblable,
          s_settings = [Own Map.empty, Defaults Assemblable, Own Map.empty],
          s_result = None, s_parent = Some 0, s_data = Some 1\<rparr>]\<rparr>"
  by (simp add: plain_scope_def model_defs)

lemma append_all_eq:
  assumes "a < length (list_objs st)"
  shows "append_all a xs st =
           st\<lparr>list_objs := (list_objs st)[a := (list_objs st ! a)\<lparr>items := items (list_objs st ! a) @ xs\<rparr>]\<rparr>"
  using assms
proof (induction xs arbitrary: st)
  case Nil
  then show ?case by simp
next
  case (Cons x xs)
  let ?st = "snd (list_append a x st)"
  have s: "?st = st\<lparr>list_objs := (list_objs st)[a := (list_objs st ! a)\<lparr>items := items (list_objs st ! a) @ [x]\<rparr>]\<rparr>"
    using Cons.prems by (simp add: list_append_def list_extend_def list_at_def)
  then have "a < length (list_objs ?st)" using Cons.prems by simp
  from Cons.IH[OF this] show ?case
    using Cons.prems by (simp add: s)
qed

lemma scope_at_list_objs_update [simp]: "scope_at (st\<lparr>list_objs := x\<rparr>) = scope_at st"
  by (rule ext) (simp add: scope_at_def)

lemma setting_list_objs_update [simp]: "setting (st\<lparr>list_objs := x\<rparr>) i k = setting st i k"
  by (simp add: setting_def split: option.splits)

text \<open>
  C7. Take an initialised scope whose configured pipeline is empty, with its parent, if it
  has one, an existing list other than its own. Whatever items are appended to its list,
  leaving the scope succeeds, and the result read afterwards is the list's earlier contents
  followed by the appended items, each in its place and unchanged.
\<close>

theorem identity_pipeline:
  assumes "scope_at st self = Some ob" and "s_data ob = Some d" and "d < length (list_objs st)"
    and "setting st self ''pipeline'' = Inr v" and "as_pipeline v = Inr []"
    and "\<forall>p. s_parent ob = Some p \<longrightarrow> p < length (list_objs st) \<and> p \<noteq> d"
  shows "\<exists>st'. Assemblable_exit self exc (append_all d xs st) = (Inr False, st') \<and>
               result st' self = Inr (items (list_objs st ! d) @ xs)"
proof -
  let ?st1 = "append_all d xs st"
  have st1: "?st1 = st\<lparr>list_objs := (list_objs st)[d := (list_objs st ! d)\<lparr>items := items (list_objs st ! d) @ xs\<rparr>]\<rparr>"
    by (rule append_all_eq[OF assms(3)])
  have ob: "scope_at ?st1 self = Some ob"
    using assms(1) by (simp add: st1)
  have rp: "run_pipeline ?st1 self d = Inr (SameList d)"
    using assms(4,5) by (simp add: st1 run_pipeline_def)
  have ri: "res_items ?st1 (SameList d) = Inr (items (list_objs st ! d) @ xs)"
    using assms(3) by (simp add: st1 res_items_def list_at_def)
  show ?thesis
  proof (cases "s_parent ob")
    case None
    from Assemblable_exit_orphan[OF ob assms(2) None rp]
    have e: "Assemblable_exit self exc ?st1 =
           (Inr False, ?st1\<lparr>scope_objs := (scope_objs ?st1)[self := ob\<lparr>s_result := Some (SameList d)\<rparr>]\<rparr>)" .
    have "result (?st1\<lparr>scope_objs := (scope_objs ?st1)[self := ob\<lparr>s_result := Some (SameList d)\<rparr>]\<rparr>) self
            = Inr (items (list_objs st ! d) @ xs)"
      using assms(1,3) by (auto simp: st1 result_def scope_at_def res_items_def list_at_def split: if_splits)
    with e show ?thesis by blast
  next
    case (Some p)
    with assms(6) have p: "p < length (list_objs st)" "p \<noteq> d" by auto
    then have pl: "p < length (list_objs ?st1)" by (simp add: st1)
    let ?st2 = "?st1\<lparr>scope_objs := (scope_objs ?st1)[self := ob\<lparr>s_result := Some (SameList d)\<rparr>],
               list_objs := (list_objs ?st1)[p := (list_objs ?st1 ! p)\<lparr>items := items (list_objs ?st1 ! p) @ (items (list_objs st ! d) @ xs)\<rparr>]\<rparr>"
    from Assemblable_exit_ok[OF ob assms(2) Some pl rp ri]
    have e: "Assemblable_exit self exc ?st1 = (Inr False, ?st2)" .
    have "result ?st2 self = Inr (items (list_objs st ! d) @ xs)"
      using assms(1,3) p by (auto simp: st1 result_def scope_at_def res_items_def list_at_def split: if_splits)
    with e show ?thesis by blast
  qed
qed

theorem identity_pipeline_witness:
  "\<exists>st'. Assemblable_exit 0 None (append_all 1 [''x'', ''y''] plain_scope) = (Inr False, st') \<and>
         result st' 0 = Inr [''x'', ''y'']"
proof -
  let ?ob = "\<lparr>s_class = Assemblable,
          s_settings = [Own Map.empty, Defaults Assemblable, Own Map.empty],
          s_result = None, s_parent = Some 0, s_data = Some 1\<rparr>"
  have a: "scope_at plain_scope 0 = Some ?ob"
    by (simp add: plain_scope_eq scope_at_def)
  have b: "setting plain_scope 0 ''pipeline'' = Inr (VPipeline [])"
    by (simp add: plain_scope_eq setting_def scope_at_def Assemblable_defaults_def)
  have "\<exists>st'. Assemblable_exit 0 None (append_all 1 [''x'', ''y''] plain_scope) = (Inr False, st') \<and>
               result st' 0 = Inr (items (list_objs plain_scope ! 1) @ [''x'', ''y''])"
    by (rule identity_pipeline[OF a _ _ b]) (simp_all add: plain_scope_eq)
  then show ?thesis
    by (simp add: plain_scope_eq)
qed

section \<open>Reading the result\<close>

lemma result_open:
  "scope_at st i = Some ob \<Longrightarrow> s_result ob = None \<Longrightarrow> result st i = Inl (ValueError NotClosed)"
  by (simp add: result_def)

text \<open>
  C4. A scope that a constructor has returned, and after it any sequence of operations of
  the library that does not leave this scope (building other scopes and lists, appending,
  leaving other scopes): reading its result raises \<^verbatim>\<open>ValueError\<close>, the one that says the
  context manager has not been closed; it returns nothing. And when leaving a scope
  succeeds, the result read afterwards is the output of the pipeline that ran: the list the
  pipeline returned, which is the contents it had at that moment unless the scope's parent
  were its own list.
\<close>

theorem result_access:
  "(construct k parent kw st = (Inr i, st') \<and> (\<forall>e. Exit i e \<notin> set ops) \<longrightarrow>
      result (run ops st') i = Inl (ValueError NotClosed)) \<and>
   (Assemblable_exit i exc st = (Inr b, st') \<longrightarrow>
      (\<exists>ob d r. scope_at st i = Some ob \<and> s_data ob = Some d \<and> run_pipeline st i d = Inr r \<and>
         result st' i = res_items st' r \<and>
         (s_parent ob \<noteq> Some d \<longrightarrow> result st' i = res_items st r)))"
proof (intro conjI impI)
  assume a: "construct k parent kw st = (Inr i, st') \<and> (\<forall>e. Exit i e \<notin> set ops)"
  from construct_Inr[of k parent kw st i st'] a obtain ob where
    "i = length (scope_objs st)" "scope_objs st' = scope_objs st @ [ob]" "s_result ob = None"
    by blast
  then have "scope_at st' i = Some ob"
    by (simp add: scope_at_def)
  with a have "scope_at (run ops st') i = Some ob"
    by (intro run_keeps_open) auto
  then show "result (run ops st') i = Inl (ValueError NotClosed)"
    using \<open>s_result ob = None\<close> by (rule result_open)
next
  assume e: "Assemblable_exit i exc st = (Inr b, st')"
  from Assemblable_exit_Inr[OF e] obtain ob d r xs where
    f: "scope_at st i = Some ob" "s_data ob = Some d" "run_pipeline st i d = Inr r"
      "scope_objs st' = (scope_objs st)[i := ob\<lparr>s_result := Some r\<rparr>]"
      "case s_parent ob of
              None \<Rightarrow> list_objs st' = list_objs st
            | Some p \<Rightarrow> res_items st r = Inr xs \<and> p < length (list_objs st) \<and>
                list_objs st' = (list_objs st)[p := (list_objs st ! p)\<lparr>items := items (list_objs st ! p) @ xs\<rparr>]"
    by blast
  have lt: "i < length (scope_objs st)"
    using f(1) by (simp add: scope_at_def split: if_splits)
  have res: "result st' i = res_items st' r"
    using f(4) lt by (simp add: result_def scope_at_def)
  have same: "res_items st' r = res_items st r" if "s_parent ob \<noteq> Some d"
  proof (cases r)
    case (NewList ys)
    then show ?thesis by (simp add: res_items_def)
  next
    case (SameList a)
    with f(3) have "a = d" by (auto dest: run_pipeline_SameList)
    with SameList that f(5) show ?thesis
      by (auto simp: res_items_def list_at_def split: option.splits)
  qed
  from f(1-3) res same
  show "\<exists>ob d r. scope_at st i = Some ob \<and> s_data ob = Some d \<and> run_pipeline st i d = Inr r \<and>
         result st' i = res_items st' r \<and>
         (s_parent ob \<noteq> Some d \<longrightarrow> result st' i = res_items st r)"
    by auto
qed

theorem result_access_witness:
  "fst (construct MkAssemblable (Some 0) Map.empty (step (MakeList AssembleList [''p'']) module_state)) = Inr 0 \<and>
   result (run [Append 1 ''x'', Construct (MkEnvironment ''itemize'') (Some 1) Map.empty, Exit 1 None] plain_scope) 0
     = Inl (ValueError NotClosed) \<and>
   fst (Assemblable_exit 0 None plain_scope) = Inr False \<and>
   result (snd (Assemblable_exit 0 None plain_scope)) 0 = Inr []"
proof -
  let ?c = "construct MkAssemblable (Some 0) Map.empty (step (MakeList AssembleList [''p'']) module_state)"
  let ?ops = "[Append 1 ''x'', Construct (MkEnvironment ''itemize'') (Some 1) Map.empty, Exit 1 None]"
  have c1: "fst ?c = Inr 0"
    by (simp add: model_defs)
  then have c: "?c = (Inr 0, plain_scope)"
    by (simp add: plain_scope_def prod_eq_iff)
  have n: "\<forall>e. Exit 0 e \<notin> set ?ops"
    by simp
  from result_access[of MkAssemblable "Some 0" Map.empty "step (MakeList AssembleList [''p'']) module_state"
      0 plain_scope ?ops, THEN conjunct1] c n
  have r1: "result (run ?ops plain_scope) 0 = Inl (ValueError NotClosed)"
    by blast
  have e1: "fst (Assemblable_exit 0 None plain_scope) = Inr False"
    by (simp add: plain_scope_eq Assemblable_exit_def scope_at_def run_pipeline_def setting_def
        Assemblable_defaults_def res_items_def list_at_def list_extend_def upd_scope_def)
  then have e: "Assemblable_exit 0 None plain_scope = (Inr False, snd (Assemblable_exit 0 None plain_scope))"
    by (simp add: prod_eq_iff)
  from result_access[of _ _ _ plain_scope 0 "snd (Assemblable_exit 0 None plain_scope)" _ None False,
      THEN conjunct2, rule_format, OF e]
  obtain ob d r where
    "scope_at plain_scope 0 = Some ob" "s_data ob = Some d" "run_pipeline plain_scope 0 d = Inr r"
    "s_parent ob \<noteq> Some d \<longrightarrow> result (snd (Assemblable_exit 0 None plain_scope)) 0 = res_items plain_scope r"
    by blast
  then have r2: "result (snd (Assemblable_exit 0 None plain_scope)) 0 = Inr []"
    by (auto simp: plain_scope_eq scope_at_def run_pipeline_def setting_def Assemblable_defaults_def
        res_items_def list_at_def)
  from c1 r1 e1 r2 show ?thesis by blast
qed

section \<open>Every reachable state is intact\<close>

text \<open>The condition \<open>intact\<close> that the theorems on construction assume holds after import
  and is kept by every operation, whatever its outcome.\<close>

lemma intact_cong: "class_defaults st' = class_defaults st \<Longrightarrow> intact st' = intact st"
  by (simp add: intact_def)

lemma DocumentPart_init_intact:
  assumes "DocumentPart_init self parent kw st = (r, st')" and "intact st"
    and "self_defaults st self \<noteq> Inr Assemblable"
  shows "intact st'"
proof (cases "self_defaults st self")
  case (Inl e)
  with assms show ?thesis by (simp add: DocumentPart_init_def)
next
  case (Inr c)
  let ?st2 = "upd_scope self (\<lambda>ob. ob\<lparr>s_settings := Own (snd (options_filter kw Assemblable_Options)) # s_settings ob\<rparr>)
        (upd_defaults c ''pipeline'' (VPipeline [p_join_of self, p_wrap_of self]) st)"
  from Inr assms(1) have "Assemblable_init self parent (fst (options_filter kw Assemblable_Options)) ?st2 = (r, st')"
    by (simp add: DocumentPart_init_def Let_def case_prod_unfold)
  from Assemblable_init_defaults[OF this] have "intact st' = intact ?st2"
    by (rule intact_cong)
  moreover have "intact ?st2"
    using assms(2,3) Inr by (auto intro!: intact_upd_defaults)
  ultimately show ?thesis by simp
qed

lemma validate_intact:
  "NewCommand_validate_and_update self m st = (r, st1) \<Longrightarrow> intact st \<Longrightarrow>
     self_defaults st self \<noteq> Inr Assemblable \<Longrightarrow> intact st1 \<and> self_defaults st1 self = self_defaults st self"
  "Environment_validate_and_update self m st = (r', st2) \<Longrightarrow> intact st \<Longrightarrow>
     self_defaults st self \<noteq> Inr Assemblable \<Longrightarrow> intact st2 \<and> self_defaults st2 self = self_defaults st self"
  by (auto simp: NewCommand_validate_and_update_def Environment_validate_and_update_def
      intro!: intact_upd_defaults
      split: option.splits sum.splits val.splits if_splits)

lemma NewCommand_init_intact:
  assumes "NewCommand_init self parent name kw st = (r, st')" and "intact st"
    and "self_defaults st self \<noteq> Inr Assemblable"
  shows "intact st'"
proof (cases "self_defaults st self")
  case (Inl e)
  with assms show ?thesis by (simp add: NewCommand_init_def)
next
  case (Inr c)
  let ?kw = "kw(''name'' \<mapsto> VStr name)"
  obtain r1 st1 where v: "NewCommand_validate_and_update self (class_defaults st c ++ ?kw) st = (r1, st1)"
    by (cases "NewCommand_validate_and_update self (class_defaults st c ++ ?kw) st")
  note f = validate_intact(1)[OF v assms(2,3)]
  show ?thesis
  proof (cases r1)
    case (Inl e)
    with v Inr assms(1) f show ?thesis by (auto simp: NewCommand_init_def Let_def)
  next
    case (Inr u)
    let ?st2 = "upd_scope self (\<lambda>ob. ob\<lparr>s_settings := Own (snd (options_filter ?kw DocumentPart_Options)) # s_settings ob\<rparr>) st1"
    from Inr v \<open>self_defaults st self = Inr c\<close> assms(1)
    have "DocumentPart_init self parent (fst (options_filter ?kw DocumentPart_Options)) ?st2 = (r, st')"
      by (simp add: NewCommand_init_def Let_def case_prod_unfold)
    then show ?thesis
      by (rule DocumentPart_init_intact) (use f assms(3) in simp_all)
  qed
qed

lemma Environment_init_intact:
  assumes "Environment_init self parent name kw st = (r, st')" and "intact st"
    and "self_defaults st self \<noteq> Inr Assemblable"
  shows "intact st'"
proof (cases "self_defaults st self")
  case (Inl e)
  with assms show ?thesis by (simp add: Environment_init_def)
next
  case (Inr c)
  let ?kw = "kw(''name'' \<mapsto> VStr name)"
  obtain r1 st1 where v: "Environment_validate_and_update self (class_defaults st c ++ ?kw) st = (r1, st1)"
    by (cases "Environment_validate_and_update self (class_defaults st c ++ ?kw) st")
  note f = validate_intact(2)[OF v assms(2,3)]
  show ?thesis
  proof (cases r1)
    case (Inl e)
    with v Inr assms(1) f show ?thesis by (auto simp: Environment_init_def Let_def)
  next
    case (Inr u)
    let ?st2 = "upd_scope self (\<lambda>ob. ob\<lparr>s_settings := Own (snd (options_filter ?kw DocumentPart_Options)) # s_settings ob\<rparr>) st1"
    from Inr v \<open>self_defaults st self = Inr c\<close> assms(1)
    have "DocumentPart_init self parent (fst (options_filter ?kw DocumentPart_Options)) ?st2 = (r, st')"
      by (simp add: Environment_init_def Let_def case_prod_unfold)
    then show ?thesis
      by (rule DocumentPart_init_intact) (use f assms(3) in simp_all)
  qed
qed

lemma intact_new_object [simp]: "intact (snd (new_object c st)) = intact st"
  by (simp add: intact_def new_object_def)

lemma self_defaults_new_object:
  "c \<in> {Assemblable, DocumentPart, NewCommand, Environment} \<Longrightarrow>
   self_defaults (snd (new_object c st)) (length (scope_objs st)) = Inr c"
  by (auto simp: self_defaults_def scope_at_def new_object_def)

lemma construct_intact:
  assumes "intact st"
  shows "intact (snd (construct k parent kw st))"
proof (cases k)
  case MkAssemblable
  obtain r st' where a: "Assemblable_init (length (scope_objs st)) parent kw (snd (new_object Assemblable st)) = (r, st')"
    by (cases "Assemblable_init (length (scope_objs st)) parent kw (snd (new_object Assemblable st))")
  from a MkAssemblable have "snd (construct k parent kw st) = st'"
    by (simp add: new_Assemblable_def case_prod_unfold split: sum.splits)
  with intact_cong[OF Assemblable_init_defaults[OF a]] assms show ?thesis by simp
next
  case MkDocumentPart
  obtain r st' where a: "DocumentPart_init (length (scope_objs st)) parent kw (snd (new_object DocumentPart st)) = (r, st')"
    by (cases "DocumentPart_init (length (scope_objs st)) parent kw (snd (new_object DocumentPart st))")
  from a MkDocumentPart have "snd (construct k parent kw st) = st'"
    by (simp add: new_DocumentPart_def case_prod_unfold split: sum.splits)
  moreover have "intact st'"
    by (rule DocumentPart_init_intact[OF a]) (use assms in \<open>simp_all add: self_defaults_new_object\<close>)
  ultimately show ?thesis by simp
next
  case (MkNewCommand n)
  obtain r st' where a: "NewCommand_init (length (scope_objs st)) parent n kw (snd (new_object NewCommand st)) = (r, st')"
    by (cases "NewCommand_init (length (scope_objs st)) parent n kw (snd (new_object NewCommand st))")
  from a MkNewCommand have "snd (construct k parent kw st) = st'"
    by (simp add: new_NewCommand_def case_prod_unfold split: sum.splits)
  moreover have "intact st'"
    by (rule NewCommand_init_intact[OF a]) (use assms in \<open>simp_all add: self_defaults_new_object\<close>)
  ultimately show ?thesis by simp
next
  case (MkEnvironment n)
  obtain r st' where a: "Environment_init (length (scope_objs st)) parent n kw (snd (new_object Environment st)) = (r, st')"
    by (cases "Environment_init (length (scope_objs st)) parent n kw (snd (new_object Environment st))")
  from a MkEnvironment have "snd (construct k parent kw st) = st'"
    by (simp add: new_Environment_def case_prod_unfold split: sum.splits)
  moreover have "intact st'"
    by (rule Environment_init_intact[OF a]) (use assms in \<open>simp_all add: self_defaults_new_object\<close>)
  ultimately show ?thesis by simp
qed

lemma class_defaults_list_extend [simp]: "class_defaults (snd (list_extend a xs st)) = class_defaults st"
  by (simp add: list_extend_def split: option.splits)

lemma class_defaults_exit [simp]: "class_defaults (snd (Assemblable_exit i exc st)) = class_defaults st"
  by (auto simp: Assemblable_exit_def Let_def list_extend_def upd_scope_def
      split: option.splits sum.splits prod.splits)

lemma step_intact: "intact st \<Longrightarrow> intact (step x st)"
proof (cases x)
  case (Construct k parent kw)
  assume "intact st"
  with Construct show ?thesis by (simp add: construct_intact)
qed (simp_all add: intact_def alloc_list_def list_append_def desc_item_def rule_def)

lemma intact_module_state: "intact module_state"
  by (simp add: intact_def module_state_def)

lemma run_intact: "intact st \<Longrightarrow> intact (run ops st)"
  by (induction ops arbitrary: st) (simp_all add: step_intact)

lemma reachable_intact: "intact (run ops module_state)"
  by (rule run_intact[OF intact_module_state])

section \<open>The end-to-end scenario\<close>

text \<open>
  C1. From the state after import, the scenario of the specification (an environment
  \<^verbatim>\<open>document\<close> without parent; inside it a command \<^verbatim>\<open>greet\<close> with \<^verbatim>\<open>nargs=1\<close> whose parent
  is the document's list, holding one item; then \<^verbatim>\<open>\greet{World}\<close> appended to the
  document's list) gives as the document's result exactly one string, the expected text.
\<close>

theorem scenario_result:
  "scenario module_state =
     Inr [BSL # ''begin{document}%\<newline>'' @
          BSL # ''newcommand{'' @ BSL # ''greet}[1]{%\<newline>'' @
          BSL # ''textbf{Hello, #1!}\<newline>}%\<newline>'' @
          BSL # ''greet{World}\<newline>'' @
          BSL # ''end{document}%'']"
  by (simp add: scenario_def model_defs)

section \<open>Scopes of one class share their class dictionary\<close>

text \<open>
  C2. The claim is that building a scope never changes what an open scope reads, so that an
  open scope closes with the prefix, suffix, delimiter and pipeline of its own construction.
  The constructors write \<^verbatim>\<open>prolog\<close>, \<^verbatim>\<open>epilog\<close> and \<^verbatim>\<open>pipeline\<close> into \<^verbatim>\<open>self._defaults\<close>,
  which is the dictionary of the class and a layer of every instance's chain. With an
  \<^verbatim>\<open>itemize\<close> environment built inside an open \<^verbatim>\<open>document\<close> environment, the document
  reads \<^verbatim>\<open>\begin{document}\<close> as its prefix before and \<^verbatim>\<open>\begin{itemize}\<close> after, and it
  closes wrapped as an \<^verbatim>\<open>itemize\<close>.
\<close>

theorem nested_environments:
  "nested module_state =
     (Inr [BSL # ''begin{itemize}%\<newline>'' @
           BSL # ''begin{itemize}%\<newline>'' @ BSL # ''item one\<newline>'' @ BSL # ''end{itemize}%\<newline>'' @
           BSL # ''end{itemize}%''],
      Inr (VStr (BSL # ''begin{document}%\<newline>'')),
      Inr (VStr (BSL # ''begin{itemize}%\<newline>'')))"
  by (simp add: nested_def model_defs)

end
